theory Spec2Isabelle
  imports Complex_Main "HOL-Library.FSet"
begin

section \<open>Strings and characters\<close>

text \<open>
  A Python string is a sequence of Unicode code points: the names of the document and
  the identifiers made from them are lists of natural numbers. Text that the generators
  write themselves (keys, file names, ids, markup) is ASCII and stays a \<open>string\<close>;
  \<open>lit\<close> reads such a literal as a Python string.
\<close>

type_synonym ustring = "nat list"

definition lit :: "string \<Rightarrow> ustring" where
  "lit s = map of_char s"

text \<open>
  The methods \<open>str.isalnum\<close>, \<open>str.isdigit\<close>, \<open>str.lower\<close> and \<open>str.title\<close> consult
  the Unicode character database of the interpreter, which is not part of the
  repository: they are parameters of the model. \<open>isalnum\<close> and \<open>isdigit\<close> are only ever
  called on single characters; \<open>lower\<close> and \<open>title\<close> work on whole strings (a character
  may lowercase to several, and a capital sigma lowercases by its context).
\<close>

record pystr =
  str_isalnum :: "nat \<Rightarrow> bool"
  str_isdigit :: "nat \<Rightarrow> bool"
  str_lower :: "ustring \<Rightarrow> ustring"
  str_title :: "ustring \<Rightarrow> ustring"

text \<open>\<open>s.replace(a, b)\<close> for single characters \<open>a\<close> and \<open>b\<close>.\<close>

definition replace_char :: "nat \<Rightarrow> nat \<Rightarrow> ustring \<Rightarrow> ustring" where
  "replace_char a b s = map (\<lambda>c. if c = a then b else c) s"

text \<open>\<open>s.replace(a, '')\<close> for a single character \<open>a\<close>.\<close>

definition remove_char :: "nat \<Rightarrow> ustring \<Rightarrow> ustring" where
  "remove_char a s = filter (\<lambda>c. c \<noteq> a) s"

text \<open>The space is the code point 32, the underscore 95. \<open>'__' in s\<close>:\<close>

fun has_uu :: "ustring \<Rightarrow> bool" where
  "has_uu (a # b # cs) = ((a = 95 \<and> b = 95) \<or> has_uu (b # cs))"
| "has_uu cs = False"

text \<open>\<open>s.replace('__', '_')\<close>: non-overlapping occurrences, scanned from the left.\<close>

fun replace_uu :: "ustring \<Rightarrow> ustring" where
  "replace_uu (a # b # cs) =
     (if a = 95 \<and> b = 95 then 95 # replace_uu cs
      else a # replace_uu (b # cs))"
| "replace_uu cs = cs"

lemma length_replace_uu_le: "length (replace_uu s) \<le> length s"
  by (induction s rule: replace_uu.induct) auto

lemma length_replace_uu_less: "has_uu s \<Longrightarrow> length (replace_uu s) < length s"
proof (induction s rule: replace_uu.induct)
  case (1 a b cs)
  show ?case
  proof (cases "a = 95 \<and> b = 95")
    case True
    then show ?thesis using length_replace_uu_le [of cs] by simp
  next
    case False
    then show ?thesis using 1 by auto
  qed
qed simp_all

text \<open>\<open>f'{i}'\<close> for a non-negative integer: its decimal digits.\<close>

definition digit_char :: "nat \<Rightarrow> char" where
  "digit_char d = char_of (48 + d)"

fun str_nat :: "nat \<Rightarrow> string" where
  "str_nat n = (if n < 10 then [digit_char n] else str_nat (n div 10) @ [digit_char (n mod 10)])"

declare str_nat.simps [simp del]

section \<open>Name registry: \<open>DesignGenerator.create_name\<close>\<close>

text \<open>
  The loops of \<open>create_name\<close>:
  \<^verbatim>\<open>while '__' in view_name: view_name = view_name.replace('__', '_')\<close>,
  \<^verbatim>\<open>while view_name.startswith('_'): view_name = view_name[1:]\<close> and
  \<^verbatim>\<open>while view_name.endswith('_'): view_name = view_name[:-1]\<close>.
\<close>

function collapse_uu :: "ustring \<Rightarrow> ustring" where
  "collapse_uu s = (if has_uu s then collapse_uu (replace_uu s) else s)"
  by pat_completeness auto
termination
  by (relation "measure length") (auto simp: length_replace_uu_less)

declare collapse_uu.simps [simp del]

fun lstrip_u :: "ustring \<Rightarrow> ustring" where
  "lstrip_u [] = []"
| "lstrip_u (c # cs) = (if c = 95 then lstrip_u cs else c # cs)"

function rstrip_u :: "ustring \<Rightarrow> ustring" where
  "rstrip_u s = (if s \<noteq> [] \<and> last s = 95 then rstrip_u (butlast s) else s)"
  by pat_completeness auto
termination
  by (relation "measure length") auto

declare rstrip_u.simps [simp del]

text \<open>
  Lines 93 to 104 of \<open>create_name\<close>: the normalization of the node's name, before the
  registry is consulted. \<open>view_name[0]\<close> is read on a non-empty string only, since the
  empty string has just been replaced by \<open>'view'\<close>.
\<close>

definition normalize_name :: "pystr \<Rightarrow> ustring \<Rightarrow> ustring" where
  "normalize_name py raw =
     (let view_name = str_lower py (replace_char 32 95 raw);
          view_name = filter (\<lambda>c. str_isalnum py c \<or> c = 95) view_name;
          view_name = collapse_uu view_name;
          view_name = lstrip_u view_name;
          view_name = rstrip_u view_name;
          view_name = (if view_name = [] then lit ''view'' else view_name);
          view_name = (if str_isdigit py (view_name ! 0) then 95 # view_name else view_name)
      in view_name)"

text \<open>\<open>f'{view_name}_{i}'\<close>\<close>

definition suffixed :: "ustring \<Rightarrow> nat \<Rightarrow> ustring" where
  "suffixed view_name i = view_name @ 95 # lit (str_nat i)"

lemma digit_char_inj: "a < 10 \<Longrightarrow> b < 10 \<Longrightarrow> digit_char a = digit_char b \<Longrightarrow> a = b"
  unfolding digit_char_def by (simp add: char_of_eq_iff take_bit_eq_mod)

lemma str_nat_nonempty: "str_nat n \<noteq> []"
  by (subst str_nat.simps) simp

lemma str_nat_inj: "str_nat n = str_nat m \<Longrightarrow> n = m"
proof (induction n arbitrary: m rule: str_nat.induct)
  case (1 n)
  show ?case
  proof (cases "n < 10")
    case n: True
    show ?thesis
    proof (cases "m < 10")
      case True
      with n 1(2) show ?thesis
        by (simp add: str_nat.simps [of n] str_nat.simps [of m] digit_char_inj)
    next
      case False
      with n 1(2) show ?thesis
        using str_nat_nonempty [of "m div 10"]
        by (simp add: str_nat.simps [of n] str_nat.simps [of m])
    qed
  next
    case n: False
    show ?thesis
    proof (cases "m < 10")
      case True
      with n 1(2) show ?thesis
        using str_nat_nonempty [of "n div 10"]
        by (simp add: str_nat.simps [of n] str_nat.simps [of m])
    next
      case False
      with n 1(2) have e: "str_nat (n div 10) = str_nat (m div 10)"
        and d: "digit_char (n mod 10) = digit_char (m mod 10)"
        by (simp_all add: str_nat.simps [of n] str_nat.simps [of m])
      from 1(1) [OF n e] have "n div 10 = m div 10" .
      moreover from d have "n mod 10 = m mod 10" by (simp add: digit_char_inj)
      ultimately show ?thesis by (metis div_mult_mod_eq)
    qed
  qed
qed

lemma lit_inj: "lit s = lit t \<Longrightarrow> s = t"
  unfolding lit_def by (erule map_injective) (rule inj_of_char)

lemma suffixed_inj: "suffixed v i = suffixed v j \<Longrightarrow> i = j"
  by (auto simp: suffixed_def dest: lit_inj str_nat_inj)

text \<open>
  The registry \<open>used_names\<close> is a Python set, so it is finite. The candidates the loop
  can still try from counter \<open>i\<close> on, among the registered names:
\<close>

definition later_candidates :: "ustring fset \<Rightarrow> ustring \<Rightarrow> nat \<Rightarrow> ustring set" where
  "later_candidates used v i = {n \<in> fset used. \<exists>j\<ge>i. n = suffixed v j}"

lemma later_candidates_step:
  "card (later_candidates used v (Suc i)) + (if suffixed v i |\<in>| used then 1 else 0)
     = card (later_candidates used v i)"
proof -
  have fin: "finite (later_candidates used v (Suc i))"
    by (simp add: later_candidates_def)
  have notin: "suffixed v i \<notin> later_candidates used v (Suc i)"
    by (auto simp: later_candidates_def dest: suffixed_inj)
  show ?thesis
  proof (cases "suffixed v i |\<in>| used")
    case True
    have "later_candidates used v i = insert (suffixed v i) (later_candidates used v (Suc i))"
      using True by (auto simp: later_candidates_def le_Suc_eq Suc_le_eq order_less_le)
    then show ?thesis using True fin notin by simp
  next
    case False
    have "later_candidates used v i = later_candidates used v (Suc i)"
      using False by (auto simp: later_candidates_def Suc_le_eq order_less_le)
    then show ?thesis using False by simp
  qed
qed

text \<open>
  Lines 105 to 109: \<^verbatim>\<open>while new_name in cls.used_names: new_name = f'{view_name}_{i}'; i += 1\<close>.
  The loop state is \<open>new_name\<close> and \<open>i\<close>.
\<close>

function find_free :: "ustring fset \<Rightarrow> ustring \<Rightarrow> ustring \<Rightarrow> nat \<Rightarrow> ustring" where
  "find_free used view_name new_name i =
     (if new_name |\<in>| used then find_free used view_name (suffixed view_name i) (i + 1)
      else new_name)"
  by pat_completeness auto
termination
proof (relation "measure (\<lambda>(used, v, new_name, i).
         card (later_candidates used v i) + (if new_name |\<in>| used then 1 else 0))", goal_cases)
  case 1
  show ?case by simp
next
  case (2 used view_name new_name i)
  then show ?case
    using later_candidates_step [of used view_name i] by simp
qed

declare find_free.simps [simp del]

section \<open>The document tree\<close>

text \<open>
  A Figma node is a dictionary. A key that the generators read with \<open>d[k]\<close> on every
  path is a field; a key read with \<open>d.get(k, default)\<close>, or read with \<open>d[k]\<close> on some
  paths only, is an optional field, and reading it with \<open>d[k]\<close> when it is absent
  raises \<open>KeyError\<close>. Numbers of the document are modelled as real numbers.
\<close>

record box =
  box_x :: real
  box_y :: real
  box_width :: real
  box_height :: real

record rgba =
  col_r :: real
  col_g :: real
  col_b :: real
  col_a :: "real option"

record point =
  pt_x :: real
  pt_y :: real

record gradient_stop =
  stop_position :: real
  stop_color :: rgba

record graphic =
  gr_type :: string
  gr_opacity :: "real option"
  gr_color :: "rgba option"
  imageRef :: "string option"
  gradientHandlePositions :: "point list option"
  gradientStops :: "gradient_stop list option"

record geometry =
  path :: string

record node =
  name :: ustring
  absoluteBoundingBox :: "box option"
  fillGeometry :: "geometry list option"
  fills :: "graphic list option"
  strokeGeometry :: "geometry list option"
  strokes :: "graphic list option"
  strokeWeight :: "real option"

datatype error = KeyError string | IndexError | Exception ustring

fun and_then :: "error + 'a \<Rightarrow> ('a \<Rightarrow> error + 'b) \<Rightarrow> error + 'b" where
  "and_then (Inl e) f = Inl e"
| "and_then (Inr a) f = f a"

text \<open>\<open>d[k]\<close> and \<open>d.get(k, default)\<close> on an optional key.\<close>

definition dict_item :: "string \<Rightarrow> 'a option \<Rightarrow> error + 'a" where
  "dict_item k v = (case v of None \<Rightarrow> Inl (KeyError k) | Some a \<Rightarrow> Inr a)"

definition dict_get :: "'a option \<Rightarrow> 'a \<Rightarrow> 'a" where
  "dict_get v d = (case v of None \<Rightarrow> d | Some a \<Rightarrow> a)"

text \<open>
  Subscription \<open>xs[i]\<close> of a Python list: from the front for \<open>0 \<le> i < len(xs)\<close>,
  from the back for \<open>-len(xs) \<le> i < 0\<close>, and \<open>IndexError\<close> for any other index.
\<close>

definition list_item :: "'a list \<Rightarrow> int \<Rightarrow> error + 'a" where
  "list_item xs i =
     (if 0 \<le> i \<and> i < int (length xs) then Inr (xs ! nat i)
      else if i < 0 \<and> - int (length xs) \<le> i then Inr (xs ! (length xs - nat (- i)))
      else Inl IndexError)"

text \<open>\<open>int(x)\<close> on a float truncates towards zero.\<close>

definition py_int :: "real \<Rightarrow> int" where
  "py_int v = (if 0 \<le> v then \<lfloor>v\<rfloor> else \<lceil>v\<rceil>)"

section \<open>Generator nodes\<close>

text \<open>
  Generators are objects that refer to each other (\<open>parent\<close>, \<open>children\<close>) and are
  updated in place, so they live in a store: the address of a generator is its index
  in \<open>heap\<close>, and a new object is appended. \<open>used_names\<close> is the class attribute of
  \<open>DesignGenerator\<close>. The path attributes of the class default to the empty string.
\<close>

record design_generator =
  figma_node :: node
  parent :: "nat option"
  children :: "nat list"
  q_widget_name :: ustring
  short_class_name :: ustring
  handler_class_path :: ustring
  controller_class_path :: ustring
  strings_class_path :: ustring
  config_class_path :: ustring

record world =
  used_names :: "ustring fset"
  heap :: "design_generator list"

definition create_name :: "pystr \<Rightarrow> node \<Rightarrow> ustring fset \<Rightarrow> ustring \<times> ustring fset" where
  "create_name py fnode used =
     (let view_name = normalize_name py (name fnode);
          view_name = find_free used view_name view_name 0
      in (view_name, finsert view_name used))"

text \<open>Successive calls of \<open>create_name\<close>, each on the registry the previous one left.\<close>

fun create_names ::
    "pystr \<Rightarrow> node list \<Rightarrow> ustring fset \<Rightarrow> ustring list \<times> ustring fset" where
  "create_names py [] used = ([], used)"
| "create_names py (n # ns) used =
     (let (v, used1) = create_name py n used;
          (vs, used2) = create_names py ns used1
      in (v # vs, used2))"

text \<open>
  Line 48: \<^verbatim>\<open>self.q_widget_name.replace('_', ' ').title().replace(' ', '')\<close>.
\<close>

definition short_name :: "pystr \<Rightarrow> ustring \<Rightarrow> ustring" where
  "short_name py q = remove_char 32 (str_title py (replace_char 95 32 q))"

text \<open>
  \<open>DesignGenerator.__init__\<close>; the result is the address of the new generator.
  \<open>parent\<close> is an object reference, hence an address of the store.
\<close>

definition design_generator_init ::
    "pystr \<Rightarrow> node \<Rightarrow> nat option \<Rightarrow> world \<Rightarrow> nat \<times> world" where
  "design_generator_init py fnode par w =
     (let self = length (heap w);
          (qname, used) = create_name py fnode (used_names w);
          obj = \<lparr> figma_node = fnode, parent = None, children = [],
                  q_widget_name = qname,
                  short_class_name = short_name py qname,
                  handler_class_path = [], controller_class_path = [],
                  strings_class_path = [], config_class_path = [] \<rparr>
      in case par of
           None \<Rightarrow> (self, \<lparr> used_names = used, heap = heap w @ [obj] \<rparr>)
         | Some p \<Rightarrow>
             (let pobj = heap w ! p;
                  obj = obj \<lparr> parent := Some p,
                              controller_class_path := controller_class_path pobj,
                              handler_class_path := handler_class_path pobj,
                              strings_class_path := strings_class_path pobj,
                              config_class_path := config_class_path pobj \<rparr>;
                  pobj = pobj \<lparr> children := children pobj @ [self] \<rparr>
              in (self, \<lparr> used_names = used, heap = (heap w)[p := pobj] @ [obj] \<rparr>)))"

text \<open>
  The property \<open>bounds\<close>; \<open>scale\<close> is \<open>config.scale\<close>, which the configuration sets.
\<close>

definition zero_box :: box where
  "zero_box = \<lparr> box_x = 0, box_y = 0, box_width = 0, box_height = 0 \<rparr>"

definition bounds :: "real \<Rightarrow> world \<Rightarrow> nat \<Rightarrow> real \<times> real \<times> real \<times> real" where
  "bounds scale w self =
     (let obj = heap w ! self;
          (parent_start_x, parent_start_y) =
            (case parent obj of
               None \<Rightarrow> (0, 0)
             | Some p \<Rightarrow>
                 (let parent_bounds = dict_get (absoluteBoundingBox (figma_node (heap w ! p))) zero_box
                  in (box_x parent_bounds, box_y parent_bounds)));
          bnds = dict_get (absoluteBoundingBox (figma_node obj)) zero_box;
          (x, y) = (box_x bnds - parent_start_x, box_y bnds - parent_start_y);
          (width, height) = (box_width bnds, box_height bnds)
      in (x * scale, y * scale, width * scale, height * scale))"

subsection \<open>\<open>CustomButtonGenerator.__init__\<close>\<close>

text \<open>
  Modelled from the spec: \<open>VisibilityGenerator\<close> (generator/properties, not among the
  sources) is constructed from one generator and "exposes a single generated operation,
  set visibility to true/false, used by CustomButton to show/hide a subtree"; it is
  the wrapper of the address of that generator.
\<close>

datatype visibility_generator = VisibilityGenerator nat

record custom_button =
  button :: nat
  hide_show_mouse_over_generator :: visibility_generator
  hide_show_pressed_generator :: visibility_generator
  hide_show_disabled_generator :: visibility_generator

definition custom_button_init ::
    "pystr \<Rightarrow> node \<Rightarrow> nat option \<Rightarrow> nat \<Rightarrow> world \<Rightarrow> error + (custom_button \<times> world)" where
  "custom_button_init py fnode par group_generator w =
     (let (self, w) = design_generator_init py fnode par w;
          group_children = children (heap w ! group_generator)
      in if length group_children < 4
         then Inl (Exception (lit ''Custom button '' @ q_widget_name (heap w ! self)
                     @ lit '' should have at least 4 children''))
         else
           and_then (list_item group_children (- 1)) (\<lambda>c1.
           and_then (list_item group_children (- 2)) (\<lambda>c2.
           and_then (list_item group_children (- 3)) (\<lambda>c3.
             Inr (\<lparr> button = self,
                    hide_show_mouse_over_generator = VisibilityGenerator c1,
                    hide_show_pressed_generator = VisibilityGenerator c2,
                    hide_show_disabled_generator = VisibilityGenerator c3 \<rparr>, w)))))"

subsection \<open>\<open>FrameGenerator.generate_design\<close>\<close>

text \<open>Lines 37 to 40: the frame extends its own four paths, in place.\<close>

definition frame_extend_paths :: "nat \<Rightarrow> world \<Rightarrow> world" where
  "frame_extend_paths self w =
     (let obj = heap w ! self;
          obj = obj \<lparr> handler_class_path :=
                        handler_class_path obj @ lit ''.'' @ short_class_name obj @ lit ''Handler'' \<rparr>;
          obj = obj \<lparr> controller_class_path :=
                        controller_class_path obj @ lit ''.'' @ short_class_name obj @ lit ''Controller'' \<rparr>;
          obj = obj \<lparr> strings_class_path :=
                        strings_class_path obj @ lit ''.'' @ short_class_name obj @ lit ''Strings'' \<rparr>;
          obj = obj \<lparr> config_class_path :=
                        config_class_path obj @ lit ''.'' @ short_class_name obj @ lit ''Config'' \<rparr>
      in w \<lparr> heap := (heap w)[self := obj] \<rparr>)"

text \<open>
  Modelled from the spec: \<open>FactoryGenerator\<close> (generator/design/core/factory_generator.py,
  not among the sources) is a generator node, and a node's namespace paths are "inherited
  verbatim from the parent unless the variant overrides them (only the Frame variant
  overrides)": its construction is the constructor of \<open>DesignGenerator\<close>.
\<close>

definition factory_generator_init ::
    "pystr \<Rightarrow> node \<Rightarrow> nat option \<Rightarrow> world \<Rightarrow> nat \<times> world" where
  "factory_generator_init py fnode par w = design_generator_init py fnode par w"

text \<open>
  \<open>generate_design\<close> of a frame, as far as the store is concerned. Line 35 reads
  \<^verbatim>\<open>self.figma_node['absoluteBoundingBox']\<close> first, which raises \<open>KeyError\<close> for a node
  without a box, before anything is changed. Then the paths are extended, and line 58
  constructs \<open>FactoryGenerator(self.figma_node, self)\<close>. The result is the address of
  that child; the emitted text is not part of the model.
\<close>

definition frame_generate_design :: "pystr \<Rightarrow> nat \<Rightarrow> world \<Rightarrow> error + (nat \<times> world)" where
  "frame_generate_design py self w =
     and_then (dict_item ''absoluteBoundingBox'' (absoluteBoundingBox (figma_node (heap w ! self))))
       (\<lambda>bnds.
          let w = frame_extend_paths self w
          in Inr (factory_generator_init py (figma_node (heap w ! self)) (Some self) w))"

section \<open>Vector markup: \<open>SvgGenerator\<close> and \<open>VectorGenerator\<close>\<close>

text \<open>
  A line of markup is kept as the template that produced it with the values substituted
  into it, not as the formatted text: one constructor for each f-string of
  \<open>generate_path\<close>. A colour is the three integers that \<open>'{:02x}'\<close> formats.
\<close>

datatype fill = FillHex int int int | FillUrl string

datatype svg_line =
    SvgPath fill real real string
  | SvgImage real real string string real
  | LinearGradientOpen string real real real real
  | RadialGradientOpen string real real real
  | GradientStop real fill real
  | LinearGradientClose
  | RadialGradientClose

text \<open>
  \<open>SvgPath fill stroke_width opacity d\<close> (the opacity is written to both
  \<open>fill-opacity\<close> and \<open>stroke-opacity\<close>); \<open>SvgImage width height href id opacity\<close>;
  \<open>LinearGradientOpen id x1 y1 x2 y2\<close>; \<open>RadialGradientOpen id cx cy r\<close>;
  \<open>GradientStop offset colour stop_opacity\<close>.

  The state: the class attributes \<open>SvgGenerator.graphic_counter\<close> and
  \<open>VectorGenerator.svg_counter\<close>, the warnings logged so far and the files written
  so far (name and lines between the constant header and the closing tag).
\<close>

record svg_state =
  graphic_counter :: nat
  svg_counter :: nat
  warnings :: "string list"
  files :: "(string \<times> svg_line list) list"

definition hex_color :: "rgba \<Rightarrow> fill" where
  "hex_color c = FillHex (py_int (col_r c * 255)) (py_int (col_g c * 255)) (py_int (col_b c * 255))"

definition stop_line :: "real \<Rightarrow> gradient_stop \<Rightarrow> svg_line" where
  "stop_line opacity stop =
     (let color = stop_color stop;
          stop_opacity = opacity * dict_get (col_a color) 1
      in GradientStop (stop_position stop) (hex_color color) stop_opacity)"

definition generate_path ::
    "node \<Rightarrow> string \<Rightarrow> graphic \<Rightarrow> svg_state \<Rightarrow> error + (svg_line list \<times> svg_state)" where
  "generate_path fnode path_data gr st =
     (let st = st \<lparr> graphic_counter := graphic_counter st + 1 \<rparr>;
          stroke_width = dict_get (strokeWeight fnode) 0;
          opacity = dict_get (gr_opacity gr) 1
      in
      if gr_type gr = ''SOLID'' then
        and_then (dict_item ''color'' (gr_color gr)) (\<lambda>color.
          let opacity = opacity * dict_get (col_a color) 0
          in Inr ([SvgPath (hex_color color) stroke_width opacity path_data], st))
      else if gr_type gr = ''IMAGE'' then
        and_then (dict_item ''imageRef'' (imageRef gr)) (\<lambda>image_ref.
        and_then (dict_item ''absoluteBoundingBox'' (absoluteBoundingBox fnode)) (\<lambda>bb.
          let image = ''../images/'' @ image_ref @ ''.png'';
              img_ref = ''img'' @ str_nat (graphic_counter st)
          in Inr ([SvgImage (box_width bb) (box_height bb) image img_ref opacity], st)))
      else if gr_type gr = ''GRADIENT_LINEAR'' then
        and_then (dict_item ''gradientHandlePositions'' (gradientHandlePositions gr)) (\<lambda>gradient.
        and_then (list_item gradient 0) (\<lambda>h0.
        and_then (list_item gradient 1) (\<lambda>h1.
        and_then (dict_item ''gradientStops'' (gradientStops gr)) (\<lambda>stops.
          let gid = ''gradient'' @ str_nat (graphic_counter st)
          in Inr ([LinearGradientOpen gid (pt_x h0) (pt_y h0) (pt_x h1) (pt_y h1)]
                  @ map (stop_line opacity) stops
                  @ [LinearGradientClose,
                     SvgPath (FillUrl gid) stroke_width opacity path_data], st)))))
      else if gr_type gr = ''GRADIENT_RADIAL'' then
        and_then (dict_item ''gradientHandlePositions'' (gradientHandlePositions gr)) (\<lambda>gradient.
        and_then (list_item gradient 0) (\<lambda>p0.
        and_then (list_item gradient (- 1)) (\<lambda>p1.
          let radius = sqrt ((pt_x p0 - pt_x p1)\<^sup>2 + (pt_y p0 - pt_y p1)\<^sup>2)
          in
        and_then (dict_item ''gradientStops'' (gradientStops gr)) (\<lambda>stops.
          let gid = ''gradient'' @ str_nat (graphic_counter st)
          in Inr ([RadialGradientOpen gid (pt_x p0) (pt_y p0) radius]
                  @ map (stop_line opacity) stops
                  @ [RadialGradientClose,
                     SvgPath (FillUrl gid) stroke_width opacity path_data], st)))))
      else
        Inr ([], st \<lparr> warnings := warnings st @ [''Unknown graphic type : '' @ gr_type gr] \<rparr>))"

text \<open>
  One loop of \<open>create_svg_file\<close>: \<open>generate_path\<close> on each pair in turn, the lines
  appended to the file's data.
\<close>

fun generate_paths ::
    "node \<Rightarrow> (geometry \<times> graphic) list \<Rightarrow> svg_state \<Rightarrow> error + (svg_line list \<times> svg_state)" where
  "generate_paths fnode [] st = Inr ([], st)"
| "generate_paths fnode ((geom, gr) # ps) st =
     and_then (generate_path fnode (path geom) gr st) (\<lambda>(ls, st1).
     and_then (generate_paths fnode ps st1) (\<lambda>(ls', st2).
       Inr (ls @ ls', st2)))"

definition create_svg_file :: "node \<Rightarrow> string \<Rightarrow> svg_state \<Rightarrow> error + svg_state" where
  "create_svg_file fnode filename st =
     and_then (dict_item ''absoluteBoundingBox'' (absoluteBoundingBox fnode)) (\<lambda>bb.
     and_then (generate_paths fnode
                 (zip (dict_get (fillGeometry fnode) []) (dict_get (fills fnode) [])) st)
       (\<lambda>(fill_lines, st1).
     and_then (generate_paths fnode
                 (zip (dict_get (strokeGeometry fnode) []) (dict_get (strokes fnode) [])) st1)
       (\<lambda>(stroke_lines, st2).
         Inr (st2 \<lparr> files := files st2 @ [(filename, fill_lines @ stroke_lines)] \<rparr>))))"

text \<open>
  \<open>VectorGenerator.generate_design\<close>: the result is \<open>pyqt_svg_path\<close>, the path that the
  emitted widget code loads; the text of that code is not part of the model.
\<close>

definition vector_generate_design :: "node \<Rightarrow> svg_state \<Rightarrow> error + (string \<times> svg_state)" where
  "vector_generate_design fnode st =
     (let st = st \<lparr> svg_counter := svg_counter st + 1 \<rparr>;
          svg_filename = ''file'' @ str_nat (svg_counter st) @ ''.svg'';
          pyqt_svg_path = ''svg/'' @ svg_filename
      in and_then (create_svg_file fnode svg_filename st) (\<lambda>st1.
         and_then (dict_item ''absoluteBoundingBox'' (absoluteBoundingBox fnode)) (\<lambda>bb.
           Inr (pyqt_svg_path, st1))))"

text \<open>A generation run visits its vector nodes one after the other.\<close>

fun generate_vectors :: "node list \<Rightarrow> svg_state \<Rightarrow> error + (string list \<times> svg_state)" where
  "generate_vectors [] st = Inr ([], st)"
| "generate_vectors (n # ns) st =
     and_then (vector_generate_design n st) (\<lambda>(p, st1).
     and_then (generate_vectors ns st1) (\<lambda>(ps, st2).
       Inr (p # ps, st2)))"

section \<open>The string methods on ASCII text\<close>

text \<open>
  On ASCII text the four methods are the following tables. They serve the examples:
  the properties below are stated for every \<open>pystr\<close>.
\<close>

definition ascii_isdigit :: "nat \<Rightarrow> bool" where
  "ascii_isdigit c \<longleftrightarrow> 48 \<le> c \<and> c \<le> 57"

definition ascii_isupper :: "nat \<Rightarrow> bool" where
  "ascii_isupper c \<longleftrightarrow> 65 \<le> c \<and> c \<le> 90"

definition ascii_islower :: "nat \<Rightarrow> bool" where
  "ascii_islower c \<longleftrightarrow> 97 \<le> c \<and> c \<le> 122"

definition ascii_isalnum :: "nat \<Rightarrow> bool" where
  "ascii_isalnum c \<longleftrightarrow> ascii_isdigit c \<or> ascii_isupper c \<or> ascii_islower c"

definition ascii_lower_char :: "nat \<Rightarrow> nat" where
  "ascii_lower_char c = (if ascii_isupper c then c + 32 else c)"

definition ascii_upper_char :: "nat \<Rightarrow> nat" where
  "ascii_upper_char c = (if ascii_islower c then c - 32 else c)"

text \<open>
  \<open>s.title()\<close>: a letter that follows a letter is lowercased, every other letter is
  uppercased; the flag says whether the previous character was a letter.
\<close>

fun ascii_title_from :: "bool \<Rightarrow> ustring \<Rightarrow> ustring" where
  "ascii_title_from prev [] = []"
| "ascii_title_from prev (c # cs) =
     (if prev then ascii_lower_char c else ascii_upper_char c)
     # ascii_title_from (ascii_isupper c \<or> ascii_islower c) cs"

definition ascii_str :: pystr where
  "ascii_str = \<lparr> str_isalnum = ascii_isalnum, str_isdigit = ascii_isdigit,
                 str_lower = map ascii_lower_char, str_title = ascii_title_from False \<rparr>"

section \<open>Example documents\<close>

definition a_node :: "string \<Rightarrow> box option \<Rightarrow> node" where
  "a_node n b = \<lparr> name = lit n, absoluteBoundingBox = b, fillGeometry = None, fills = None,
                  strokeGeometry = None, strokes = None, strokeWeight = None \<rparr>"

definition a_box :: "real \<Rightarrow> real \<Rightarrow> real \<Rightarrow> real \<Rightarrow> box" where
  "a_box a b c d = \<lparr> box_x = a, box_y = b, box_width = c, box_height = d \<rparr>"

definition a_generator :: "node \<Rightarrow> nat option \<Rightarrow> nat list \<Rightarrow> string \<Rightarrow> design_generator" where
  "a_generator n p cs q =
     \<lparr> figma_node = n, parent = p, children = cs, q_widget_name = lit q,
       short_class_name = short_name ascii_str (lit q),
       handler_class_path = [], controller_class_path = [],
       strings_class_path = [], config_class_path = [] \<rparr>"

text \<open>A window at (100, 50) with one label at (110, 60), 10 wide and 20 high.\<close>

definition window_and_label :: world where
  "window_and_label =
     \<lparr> used_names = {|lit ''window'', lit ''label''|},
       heap = [a_generator (a_node ''Window'' (Some (a_box 100 50 300 200))) None [1] ''window'',
               a_generator (a_node ''Label'' (Some (a_box 110 60 10 20))) (Some 0) [] ''label''] \<rparr>"

definition a_color :: "real \<Rightarrow> real \<Rightarrow> real \<Rightarrow> real option \<Rightarrow> rgba" where
  "a_color r g b a = \<lparr> col_r = r, col_g = g, col_b = b, col_a = a \<rparr>"

definition a_solid :: "real option \<Rightarrow> rgba \<Rightarrow> graphic" where
  "a_solid op c = \<lparr> gr_type = ''SOLID'', gr_opacity = op, gr_color = Some c, imageRef = None,
                    gradientHandlePositions = None, gradientStops = None \<rparr>"

definition a_point :: "real \<Rightarrow> real \<Rightarrow> point" where
  "a_point a b = \<lparr> pt_x = a, pt_y = b \<rparr>"

definition a_radial :: "point list \<Rightarrow> gradient_stop list \<Rightarrow> graphic" where
  "a_radial hs stops = \<lparr> gr_type = ''GRADIENT_RADIAL'', gr_opacity = None, gr_color = None,
                         imageRef = None, gradientHandlePositions = Some hs,
                         gradientStops = Some stops \<rparr>"

definition a_graphic :: "string \<Rightarrow> graphic" where
  "a_graphic t = \<lparr> gr_type = t, gr_opacity = None, gr_color = None,
                         imageRef = None, gradientHandlePositions = None,
                         gradientStops = None \<rparr>"

definition fresh_state :: svg_state where
  "fresh_state = \<lparr> graphic_counter = 0, svg_counter = 0, warnings = [], files = [] \<rparr>"

definition a_geometry :: "string \<Rightarrow> geometry" where
  "a_geometry d = \<lparr> path = d \<rparr>"

text \<open>Two fill geometries for one solid fill, a stroke without stroke geometry.\<close>

definition uneven_shape :: node where
  "uneven_shape =
     \<lparr> name = lit ''Shape'', absoluteBoundingBox = Some (a_box 0 0 10 10),
       fillGeometry = Some [a_geometry ''M 0 0'', a_geometry ''M 1 1''],
       fills = Some [a_solid None (a_color 1 0 0 (Some 1))],
       strokeGeometry = None,
       strokes = Some [a_solid None (a_color 0 0 1 (Some 1))],
       strokeWeight = None \<rparr>"

definition red :: graphic where
  "red = a_solid None (a_color 1 0 0 (Some 1))"

text \<open>
  A shape with a solid fill and a radial gradient fill, and the lines of its markup when
  the gradient has the id \<open>gid\<close>.
\<close>

definition gradient_shape :: node where
  "gradient_shape =
     \<lparr> name = lit ''Shape'', absoluteBoundingBox = Some (a_box 0 0 10 10),
       fillGeometry = Some [a_geometry ''M 0 0'', a_geometry ''M 1 1''],
       fills = Some [red, a_radial [a_point 0 0, a_point 3 4] []],
       strokeGeometry = None, strokes = None, strokeWeight = None \<rparr>"

definition gradient_shape_lines :: "string \<Rightarrow> svg_line list" where
  "gradient_shape_lines gid =
     [SvgPath (FillHex 255 0 0) 0 1 ''M 0 0'',
      RadialGradientOpen gid 0 0 5, RadialGradientClose,
      SvgPath (FillUrl gid) 0 1 ''M 1 1'']"

text \<open>The state after a run over two such shapes.\<close>

definition after_two_shapes :: svg_state where
  "after_two_shapes =
     \<lparr> graphic_counter = 4, svg_counter = 2, warnings = [],
       files = [(''file1.svg'', gradient_shape_lines ''gradient2''),
                (''file2.svg'', gradient_shape_lines ''gradient4'')] \<rparr>"


text \<open>
  A frame \<open>Inner\<close> inside a frame \<open>Outer\<close>: the store after the design of \<open>Outer\<close>
  was generated (which put it and its child, at the address 1, into the namespace
  \<open>Outer\<close>) and \<open>Inner\<close> was constructed under that child.
\<close>

definition in_namespace :: "string \<Rightarrow> design_generator \<Rightarrow> design_generator" where
  "in_namespace ns g =
     g \<lparr> handler_class_path := lit (''.'' @ ns @ ''Handler''),
         controller_class_path := lit (''.'' @ ns @ ''Controller''),
         strings_class_path := lit (''.'' @ ns @ ''Strings''),
         config_class_path := lit (''.'' @ ns @ ''Config'') \<rparr>"

definition nested_frames :: world where
  "nested_frames =
     \<lparr> used_names = {|lit ''outer'', lit ''outer_0'', lit ''inner''|},
       heap = [in_namespace ''Outer''
                 (a_generator (a_node ''Outer'' (Some (a_box 0 0 300 200))) None [1] ''outer''),
               in_namespace ''Outer''
                 (a_generator (a_node ''Outer'' (Some (a_box 0 0 300 200))) (Some 0) [2] ''outer_0''),
               in_namespace ''Outer''
                 (a_generator (a_node ''Inner'' (Some (a_box 10 10 100 100))) (Some 1) [] ''inner'')] \<rparr>"

section \<open>Notions used in the properties\<close>




text \<open>
  Every generator gets its short class name from its identifier, in the constructor, and
  neither is assigned again: in the stores that the generators build, all generators
  satisfy this.
\<close>

definition names_consistent :: "pystr \<Rightarrow> world \<Rightarrow> bool" where
  "names_consistent py w \<longleftrightarrow>
     (\<forall>g\<in>set (heap w). short_class_name g = short_name py (q_widget_name g))"

text \<open>The name before the fallback and the digit prefix (lines 93 to 100).\<close>

definition name_core :: "pystr \<Rightarrow> ustring \<Rightarrow> ustring" where
  "name_core py raw = rstrip_u (lstrip_u (collapse_uu
     (filter (\<lambda>c. str_isalnum py c \<or> c = 95) (str_lower py (replace_char 32 95 raw)))))"

text \<open>
  What the normalization relies on in the string methods of Python. The space is not
  alphanumeric. \<open>lower\<close> changes no string made of characters that \<open>lower\<close> itself
  produces (it lowercases character by character, except for the capital sigma, and no
  character that a lowercase mapping produces has a lowercase mapping itself). The
  literal \<open>'_view'\<close> is in lowercase, and the letters of \<open>'view'\<close> are alphanumeric.
\<close>

definition str_laws :: "pystr \<Rightarrow> bool" where
  "str_laws py \<longleftrightarrow>
     \<not> str_isalnum py 32
     \<and> (\<forall>t. (\<forall>c\<in>set t. \<exists>s. c \<in> set (str_lower py s)) \<longrightarrow> str_lower py t = t)
     \<and> str_lower py (lit ''_view'') = lit ''_view''
     \<and> (\<forall>c\<in>set (lit ''view''). str_isalnum py c)"

text \<open>
  A character is settled when the filter keeps it and \<open>lower\<close> produces it. A name is in
  normal form when it is not empty, its characters are settled, it has no two
  underscores in a row and none at its end, and it starts either with a character that
  is neither an underscore nor a digit, or with one underscore before a digit.
\<close>

definition settled :: "pystr \<Rightarrow> nat \<Rightarrow> bool" where
  "settled py c \<longleftrightarrow> (str_isalnum py c \<or> c = 95) \<and> (\<exists>s. c \<in> set (str_lower py s))"

definition normal_form :: "pystr \<Rightarrow> ustring \<Rightarrow> bool" where
  "normal_form py s \<longleftrightarrow>
     s \<noteq> [] \<and> (\<forall>c\<in>set s. settled py c) \<and> \<not> has_uu s \<and> last s \<noteq> 95
     \<and> (if hd s = 95 then tl s \<noteq> [] \<and> hd (tl s) \<noteq> 95 \<and> str_isdigit py (hd (tl s))
         else \<not> str_isdigit py (hd s))"

text \<open>The registry after a base name and its first \<open>m\<close> suffixed forms were handed out.\<close>

definition taken :: "ustring \<Rightarrow> nat \<Rightarrow> ustring fset" where
  "taken base m = finsert base (fset_of_list (map (suffixed base) [0..<m]))"

text \<open>
  The ids that a line of markup defines, the ids that the counter values in \<open>(a, b]\<close>
  can give, the files written between two states, and the number of index-aligned
  pairs of a node.
\<close>

fun line_ids :: "svg_line \<Rightarrow> string list" where
  "line_ids (SvgImage w h href i op) = [i]"
| "line_ids (LinearGradientOpen i x1 y1 x2 y2) = [i]"
| "line_ids (RadialGradientOpen i cx cy r) = [i]"
| "line_ids l = []"

definition markup_ids :: "svg_line list \<Rightarrow> string list" where
  "markup_ids ls = concat (map line_ids ls)"

definition ids_between :: "nat \<Rightarrow> nat \<Rightarrow> string set" where
  "ids_between a b =
     (\<lambda>k. ''img'' @ str_nat k) ` {a<..b} \<union> (\<lambda>k. ''gradient'' @ str_nat k) ` {a<..b}"

definition written :: "svg_state \<Rightarrow> svg_state \<Rightarrow> (string \<times> svg_line list) list" where
  "written st st' = drop (length (files st)) (files st')"

definition pair_count :: "node \<Rightarrow> nat" where
  "pair_count fnode =
     min (length (dict_get (fillGeometry fnode) [])) (length (dict_get (fills fnode) []))
     + min (length (dict_get (strokeGeometry fnode) [])) (length (dict_get (strokes fnode) []))"

section \<open>Properties\<close>

subsection \<open>Evaluation and the result type\<close>

lemmas ascii_eval = lit_def ascii_str_def ascii_isdigit_def ascii_isupper_def ascii_islower_def
  ascii_isalnum_def ascii_lower_char_def ascii_upper_char_def short_name_def
  replace_char_def remove_char_def

lemmas digit_eval = digit_char_def char_of_def bit_Suc_0_iff

lemma and_then_Inr_iff: "and_then m f = Inr r \<longleftrightarrow> (\<exists>a. m = Inr a \<and> f a = Inr r)"
  by (cases m) auto

lemma list_item_first: "xs \<noteq> [] \<Longrightarrow> list_item xs 0 = Inr (hd xs)"
  by (cases xs) (simp_all add: list_item_def)

lemma list_item_from_end:
  "0 < k \<Longrightarrow> k \<le> length xs \<Longrightarrow> list_item xs (- int k) = Inr (xs ! (length xs - k))"
  by (simp add: list_item_def)

lemma list_item_last: "xs \<noteq> [] \<Longrightarrow> list_item xs (- 1) = Inr (last xs)"
  using list_item_from_end [of 1 xs] by (cases xs) (simp_all add: last_conv_nth)

subsection \<open>Name registry\<close>

lemma suffixed_neq_base: "suffixed base j \<noteq> base"
  by (simp add: suffixed_def)

lemma suffixed_in_taken: "suffixed base j |\<in>| taken base m \<longleftrightarrow> j < m"
  by (auto simp: taken_def suffixed_neq_base fset_of_list_elem dest: suffixed_inj)

lemma base_in_taken: "base |\<in>| taken base m"
  by (simp add: taken_def)

lemma taken_Suc: "finsert (suffixed base m) (taken base m) = taken base (Suc m)"
  by (auto simp: taken_def fset_of_list_elem)

lemma find_free_taken_from:
  "i \<le> m \<Longrightarrow> new |\<in>| taken base m \<Longrightarrow> find_free (taken base m) base new i = suffixed base m"
proof (induction "m - i" arbitrary: i new)
  case 0
  then have "i = m" by simp
  then show ?case
    using 0 by (simp add: find_free.simps [of _ _ new] find_free.simps [of _ _ "suffixed base m"] suffixed_in_taken)
next
  case (Suc d)
  then have "i < m" by simp
  then have "find_free (taken base m) base (suffixed base i) (i + 1) = suffixed base m"
    using Suc by (intro Suc(1)) (simp_all add: suffixed_in_taken)
  then show ?case using Suc.prems by (simp add: find_free.simps [of _ _ new])
qed

lemma create_name_taken:
  "normalize_name py (name n) = base \<Longrightarrow>
     create_name py n (taken base m) = (suffixed base m, taken base (Suc m))"
  by (simp add: create_name_def find_free_taken_from base_in_taken taken_Suc)

lemma create_names_taken:
  "\<forall>n\<in>set ns. normalize_name py (name n) = base \<Longrightarrow>
     create_names py ns (taken base m) =
       (map (suffixed base) [m..<m + length ns], taken base (m + length ns))"
proof (induction ns arbitrary: m)
  case Nil
  show ?case by simp
next
  case (Cons n ns)
  then have "create_names py (n # ns) (taken base m)
          = (suffixed base m # map (suffixed base) [Suc m..<Suc m + length ns],
             taken base (Suc m + length ns))"
    by (simp add: create_name_taken)
  moreover have "[m..<m + length (n # ns)] = m # [Suc m..<Suc m + length ns]"
    by (simp add: upt_conv_Cons del: upt_Suc)
  ultimately show ?case by simp
qed

lemma distinct_base_suffixed: "distinct (base # map (suffixed base) [0..<m])"
  using suffixed_neq_base [of base]
  by (auto simp: distinct_map inj_on_def dest: suffixed_inj sym)

text \<open>
  C1. Whatever the string methods are: starting from the empty registry, successive
  calls of \<open>create_name\<close> on nodes whose names all normalize to \<open>base\<close> return
  \<open>base\<close> first and then \<open>base_0\<close>, \<open>base_1\<close>, ... in call order, and the names
  returned are pairwise distinct.
\<close>

theorem create_names_same_base:
  assumes "\<forall>n\<in>set ns. normalize_name py (name n) = base"
  shows "fst (create_names py ns {||})
           = map (\<lambda>k. if k = 0 then base else suffixed base (k - 1)) [0..<length ns]
         \<and> distinct (fst (create_names py ns {||}))"
proof (cases ns)
  case Nil
  then show ?thesis by simp
next
  case (Cons n ns')
  have first: "create_name py n {||} = (base, taken base 0)"
    using assms Cons by (simp add: create_name_def find_free.simps taken_def)
  have rest: "create_names py ns' (taken base 0)
                = (map (suffixed base) [0..<length ns'], taken base (length ns'))"
    using create_names_taken [of ns' py base 0] assms Cons by simp
  have names: "fst (create_names py ns {||}) = base # map (suffixed base) [0..<length ns']"
    using first rest Cons by simp
  have "map (\<lambda>k. if k = 0 then base else suffixed base (k - 1)) [0..<length ns]
          = base # map (suffixed base) [0..<length ns']"
    unfolding Cons by (simp add: upt_rec [of 0] map_Suc_upt [symmetric] del: upt_Suc)
  with names distinct_base_suffixed [of base "length ns'"] show ?thesis by simp
qed

text \<open>
  Three names that normalize to \<open>my_button\<close>.
\<close>

theorem create_names_same_base_witness:
  "fst (create_names ascii_str [a_node ''My Button'' None, a_node ''my  button'' None,
                                a_node ''_My_Button!'' None] {||})
     = [lit ''my_button'', lit ''my_button_0'', lit ''my_button_1'']"
proof -
  have h: "\<forall>n\<in>set [a_node ''My Button'' None, a_node ''my  button'' None,
                      a_node ''_My_Button!'' None].
             normalize_name ascii_str (name n) = lit ''my_button''"
    by (simp add: a_node_def normalize_name_def ascii_eval collapse_uu.simps rstrip_u.simps)
  from conjunct1 [OF create_names_same_base [OF h]] show ?thesis
    by (simp add: suffixed_def str_nat.simps digit_eval lit_def)
qed

subsection \<open>Normalization\<close>

lemma set_replace_uu: "set (replace_uu s) \<subseteq> set s"
  by (induction s rule: replace_uu.induct) auto

lemma set_collapse_uu: "set (collapse_uu s) \<subseteq> set s"
proof (induction s rule: collapse_uu.induct)
  case (1 s)
  show ?case
  proof (cases "has_uu s")
    case True
    with 1 set_replace_uu [of s] show ?thesis by (subst collapse_uu.simps) auto
  next
    case False
    then show ?thesis by (subst collapse_uu.simps) simp
  qed
qed

lemma no_uu_collapse_uu: "\<not> has_uu (collapse_uu s)"
proof (induction s rule: collapse_uu.induct)
  case (1 s)
  then show ?case by (subst collapse_uu.simps) simp
qed

lemma collapse_uu_id: "\<not> has_uu s \<Longrightarrow> collapse_uu s = s"
  by (subst collapse_uu.simps) simp

lemma has_uu_Cons: "has_uu cs \<Longrightarrow> has_uu (c # cs)"
  by (cases cs) auto

lemma has_uu_Cons_iff: "cs \<noteq> [] \<Longrightarrow> has_uu (c # cs) \<longleftrightarrow> (c = 95 \<and> hd cs = 95) \<or> has_uu cs"
  by (cases cs) auto

lemma set_lstrip_u: "set (lstrip_u s) \<subseteq> set s"
  by (induction s) auto

lemma no_uu_lstrip_u: "\<not> has_uu s \<Longrightarrow> \<not> has_uu (lstrip_u s)"
  by (induction s) (auto dest: has_uu_Cons)

lemma hd_lstrip_u: "lstrip_u s \<noteq> [] \<Longrightarrow> hd (lstrip_u s) \<noteq> 95"
  by (induction s) (auto split: if_splits)

lemma lstrip_u_id: "s = [] \<or> hd s \<noteq> 95 \<Longrightarrow> lstrip_u s = s"
  by (cases s) auto

lemma no_uu_butlast: "\<not> has_uu s \<Longrightarrow> \<not> has_uu (butlast s)"
  by (induction s rule: has_uu.induct) (auto split: if_splits)

lemma set_rstrip_u: "set (rstrip_u s) \<subseteq> set s"
proof (induction s rule: rstrip_u.induct)
  case (1 s)
  show ?case
  proof (cases "s \<noteq> [] \<and> last s = 95")
    case True
    with 1 have "set (rstrip_u (butlast s)) \<subseteq> set (butlast s)" by simp
    with True show ?thesis by (subst rstrip_u.simps) (auto dest: in_set_butlastD)
  next
    case False
    then show ?thesis by (subst rstrip_u.simps) auto
  qed
qed

lemma no_uu_rstrip_u: "\<not> has_uu s \<Longrightarrow> \<not> has_uu (rstrip_u s)"
proof (induction s rule: rstrip_u.induct)
  case (1 s)
  show ?case
  proof (cases "s \<noteq> [] \<and> last s = 95")
    case True
    with 1 no_uu_butlast [of s] show ?thesis by (subst rstrip_u.simps) simp
  next
    case False
    with 1 show ?thesis by (subst rstrip_u.simps) auto
  qed
qed

lemma last_rstrip_u: "rstrip_u s \<noteq> [] \<Longrightarrow> last (rstrip_u s) \<noteq> 95"
proof (induction s rule: rstrip_u.induct)
  case (1 s)
  show ?case
  proof (cases "s \<noteq> [] \<and> last s = 95")
    case True
    with 1 show ?thesis by (subst rstrip_u.simps, subst (asm) (2) rstrip_u.simps) simp
  next
    case False
    with 1(2) show ?thesis by (subst rstrip_u.simps, subst (asm) rstrip_u.simps) auto
  qed
qed

lemma hd_rstrip_u: "rstrip_u s \<noteq> [] \<Longrightarrow> hd (rstrip_u s) = hd s"
proof (induction s rule: rstrip_u.induct)
  case (1 s)
  show ?case
  proof (cases "s \<noteq> [] \<and> last s = 95")
    case True
    from True 1(2) have ne: "rstrip_u (butlast s) \<noteq> []"
      by (subst (asm) rstrip_u.simps) simp
    then have "butlast s \<noteq> []" by (subst (asm) rstrip_u.simps) auto
    then have "hd (butlast s) = hd s" by (cases s) auto
    with 1(1) [OF True ne] True show ?thesis by (subst rstrip_u.simps) simp
  next
    case False
    then show ?thesis by (subst rstrip_u.simps) auto
  qed
qed

lemma rstrip_u_id: "s = [] \<or> last s \<noteq> 95 \<Longrightarrow> rstrip_u s = s"
  by (subst rstrip_u.simps) auto

lemma normalize_name_core:
  "normalize_name py raw =
     (let v = (if name_core py raw = [] then lit ''view'' else name_core py raw)
      in if str_isdigit py (hd v) then 95 # v else v)"
  by (simp add: normalize_name_def name_core_def Let_def hd_conv_nth lit_def)

lemma name_core_settled: "\<forall>c\<in>set (name_core py raw). settled py c"
proof -
  let ?s = "filter (\<lambda>c. str_isalnum py c \<or> c = 95) (str_lower py (replace_char 32 95 raw))"
  have "\<forall>c\<in>set ?s. settled py c"
    by (auto simp: settled_def)
  moreover have "set (name_core py raw) \<subseteq> set ?s"
    unfolding name_core_def
    using set_rstrip_u set_lstrip_u set_collapse_uu by (meson subset_trans)
  ultimately show ?thesis by blast
qed

lemma name_core_no_uu: "\<not> has_uu (name_core py raw)"
  unfolding name_core_def by (intro no_uu_rstrip_u no_uu_lstrip_u no_uu_collapse_uu)

lemma name_core_ends:
  assumes "name_core py raw \<noteq> []"
  shows "hd (name_core py raw) \<noteq> 95" and "last (name_core py raw) \<noteq> 95"
proof -
  let ?l = "lstrip_u (collapse_uu
     (filter (\<lambda>c. str_isalnum py c \<or> c = 95) (str_lower py (replace_char 32 95 raw))))"
  from assms have r: "rstrip_u ?l \<noteq> []" by (simp add: name_core_def)
  then have "?l \<noteq> []" by (subst (asm) rstrip_u.simps) auto
  then have "hd ?l \<noteq> 95" by (rule hd_lstrip_u)
  with hd_rstrip_u [OF r] show "hd (name_core py raw) \<noteq> 95" by (simp add: name_core_def)
  from last_rstrip_u [OF r] show "last (name_core py raw) \<noteq> 95" by (simp add: name_core_def)
qed

lemma view_settled:
  assumes "str_laws py"
  shows "settled py 95" and "\<forall>c\<in>set (lit ''view''). settled py c"
proof -
  from assms have l: "str_lower py (lit ''_view'') = lit ''_view''"
    and a: "\<forall>c\<in>set (lit ''view''). str_isalnum py c"
    by (simp_all add: str_laws_def)
  have p: "\<exists>s. c \<in> set (str_lower py s)" if "c \<in> set (lit ''_view'')" for c
    using that l by (intro exI [of _ "lit ''_view''"]) simp
  have u: "lit ''_view'' = 95 # lit ''view''" by (simp add: lit_def)
  show "settled py 95" using p [of 95] by (simp add: settled_def u)
  show "\<forall>c\<in>set (lit ''view''). settled py c"
    using a p by (auto simp: settled_def u)
qed

lemma view_shape: "lit ''view'' \<noteq> []" "\<not> has_uu (lit ''view'')"
  "hd (lit ''view'') \<noteq> 95" "last (lit ''view'') \<noteq> 95"
  by (simp_all add: lit_def)

text \<open>
  Under these laws the names that the normalization returns are in normal form, and the
  names in normal form are its fixed points: they are exactly the names it returns.
\<close>

lemma normal_form_normalize_name:
  assumes "str_laws py"
  shows "normal_form py (normalize_name py raw)"
proof -
  define v where "v = (if name_core py raw = [] then lit ''view'' else name_core py raw)"
  have ne: "v \<noteq> []" by (simp add: v_def view_shape)
  have chars: "\<forall>c\<in>set v. settled py c"
    using name_core_settled [of py raw] view_settled(2) [OF assms] by (simp add: v_def)
  have uu: "\<not> has_uu v" using name_core_no_uu [of py raw] view_shape by (simp add: v_def)
  have h: "hd v \<noteq> 95" and l: "last v \<noteq> 95"
    using name_core_ends [of py raw] view_shape by (auto simp: v_def)
  have n: "normalize_name py raw = (if str_isdigit py (hd v) then 95 # v else v)"
    by (simp add: normalize_name_core v_def Let_def)
  show ?thesis
  proof (cases "str_isdigit py (hd v)")
    case True
    with ne chars uu h l view_settled(1) [OF assms] show ?thesis
      by (simp add: n normal_form_def has_uu_Cons_iff)
  next
    case False
    with ne chars uu h l show ?thesis by (simp add: n normal_form_def)
  qed
qed

lemma settled_pass:
  assumes "str_laws py" and a: "\<forall>c\<in>set s. settled py c"
  shows "filter (\<lambda>c. str_isalnum py c \<or> c = 95) (str_lower py (replace_char 32 95 s)) = s"
proof -
  from assms(1) have sp: "\<not> str_isalnum py 32"
    and low: "\<And>t. (\<forall>c\<in>set t. \<exists>s. c \<in> set (str_lower py s)) \<Longrightarrow> str_lower py t = t"
    by (simp_all add: str_laws_def)
  have r: "replace_char 32 95 s = s"
    unfolding replace_char_def
  proof (rule map_idI)
    fix c assume "c \<in> set s"
    with a have "settled py c" by blast
    with sp have "c \<noteq> 32" by (auto simp: settled_def)
    then show "(if c = 32 then 95 else c) = c" by simp
  qed
  have l: "str_lower py s = s"
  proof (rule low)
    show "\<forall>c\<in>set s. \<exists>t. c \<in> set (str_lower py t)"
      using a by (auto simp: settled_def)
  qed
  have f: "filter (\<lambda>c. str_isalnum py c \<or> c = 95) s = s"
  proof (rule filter_True)
    show "\<forall>c\<in>set s. str_isalnum py c \<or> c = 95"
      using a by (auto simp: settled_def)
  qed
  show ?thesis by (simp only: r l f)
qed

lemma name_core_normal_form:
  assumes "str_laws py" and "normal_form py s"
  shows "name_core py s = (if hd s = 95 then tl s else s)"
proof -
  from assms(2) have ne: "s \<noteq> []" and chars: "\<forall>c\<in>set s. settled py c" and uu: "\<not> has_uu s"
    and l: "last s \<noteq> 95" by (simp_all add: normal_form_def)
  have c: "name_core py s = rstrip_u (lstrip_u s)"
    by (simp add: name_core_def settled_pass [OF assms(1) chars] collapse_uu_id [OF uu])
  show ?thesis
  proof (cases "hd s = 95")
    case True
    with assms(2) have t: "tl s \<noteq> []" and d: "hd (tl s) \<noteq> 95"
      by (simp_all add: normal_form_def)
    with True ne have "lstrip_u s = tl s" by (cases s) (auto simp: lstrip_u_id)
    moreover from t ne l have "last (tl s) \<noteq> 95" by (cases s) auto
    ultimately show ?thesis using True by (simp add: c rstrip_u_id)
  next
    case False
    with l show ?thesis by (simp add: c lstrip_u_id rstrip_u_id)
  qed
qed

lemma normalize_name_normal_form:
  assumes "str_laws py" and "normal_form py s"
  shows "normalize_name py s = s"
proof (cases "hd s = 95")
  case True
  with assms(2) have ne: "s \<noteq> []" and t: "tl s \<noteq> []" and d: "str_isdigit py (hd (tl s))"
    by (simp_all add: normal_form_def)
  from True ne have "s = 95 # tl s" by (cases s) auto
  with t d show ?thesis
    by (simp add: normalize_name_core name_core_normal_form [OF assms] True)
next
  case False
  with assms(2) have ne: "s \<noteq> []" and d: "\<not> str_isdigit py (hd s)"
    by (simp_all add: normal_form_def)
  then show ?thesis
    by (simp add: normalize_name_core name_core_normal_form [OF assms] False)
qed

text \<open>
  C9. For string methods with the laws \<open>str_laws\<close>, the normalization of \<open>create_name\<close>
  is idempotent: the name it returns for any string is returned unchanged when it is
  normalized again.
\<close>

theorem normalize_name_idempotent:
  assumes "str_laws py"
  shows "normalize_name py (normalize_name py raw) = normalize_name py raw"
  using normalize_name_normal_form [OF assms normal_form_normalize_name [OF assms]] .

text \<open>The string methods on ASCII text have these laws.\<close>

lemma ascii_str_laws: "str_laws ascii_str"
proof -
  have low: "map ascii_lower_char t = t" if "\<forall>c\<in>set t. \<exists>s. c \<in> set (map ascii_lower_char s)" for t
  proof (rule map_idI)
    fix c assume "c \<in> set t"
    with that obtain d where "c = ascii_lower_char d" by auto
    then show "ascii_lower_char c = c"
      by (auto simp: ascii_lower_char_def ascii_isupper_def)
  qed
  show ?thesis
    unfolding str_laws_def
  proof (intro conjI allI impI)
    show "\<not> str_isalnum ascii_str 32" by (simp add: ascii_eval)
    show "str_lower ascii_str (lit ''_view'') = lit ''_view''" by (simp add: ascii_eval)
    show "\<forall>c\<in>set (lit ''view''). str_isalnum ascii_str c" by (simp add: ascii_eval)
  next
    fix t assume "\<forall>c\<in>set t. \<exists>s. c \<in> set (str_lower ascii_str s)"
    then show "str_lower ascii_str t = t" using low [of t] by (simp add: ascii_str_def)
  qed
qed

text \<open>
  The name \<open>'1st  Button!'\<close> becomes \<open>'_1st_button'\<close>, and stays so.
\<close>

theorem normalize_name_idempotent_witness:
  "str_laws ascii_str
   \<and> normalize_name ascii_str (normalize_name ascii_str (lit ''1st  Button!'')) = lit ''_1st_button''"
proof -
  have n: "normalize_name ascii_str (lit ''1st  Button!'') = lit ''_1st_button''"
    by (simp add: normalize_name_def ascii_eval collapse_uu.simps rstrip_u.simps)
  have a: "normalize_name ascii_str (normalize_name ascii_str (lit ''1st  Button!''))
             = normalize_name ascii_str (lit ''1st  Button!'')"
    by (rule normalize_name_idempotent [OF ascii_str_laws])
  show ?thesis
    by (intro conjI, rule ascii_str_laws, rule trans [OF a n])
qed

subsection \<open>Bounds\<close>

text \<open>
  C2. For a generator whose node has the absolute box \<open>cb\<close>: with a parent whose node has
  the absolute box \<open>pb\<close>, \<open>bounds\<close> is the offset of \<open>cb\<close> from the origin of \<open>pb\<close> and
  the size of \<open>cb\<close>, each multiplied by the scale; without a parent the origin is (0, 0).
\<close>

theorem bounds_relative_scaled:
  assumes "absoluteBoundingBox (figma_node (heap w ! self)) = Some cb"
  shows "(parent (heap w ! self) = Some p \<and> absoluteBoundingBox (figma_node (heap w ! p)) = Some pb
           \<longrightarrow> bounds s w self = ((box_x cb - box_x pb) * s, (box_y cb - box_y pb) * s,
                                  box_width cb * s, box_height cb * s))
       \<and> (parent (heap w ! self) = None
           \<longrightarrow> bounds s w self = ((box_x cb - 0) * s, (box_y cb - 0) * s,
                                  box_width cb * s, box_height cb * s))"
  using assms by (simp add: bounds_def dict_get_def)

text \<open>
  The child box (110, 60, 10, 20) under the parent box at (100, 50), with scale 2, has the
  bounds (20, 20, 20, 40); the parentless window has its own box, doubled.
\<close>

theorem bounds_relative_scaled_witness:
  "bounds 2 window_and_label 1 = (20, 20, 20, 40)
   \<and> bounds 2 window_and_label 0 = (200, 100, 600, 400)"
proof -
  have c: "absoluteBoundingBox (figma_node (heap window_and_label ! 1)) = Some (a_box 110 60 10 20)"
    and p: "parent (heap window_and_label ! 1) = Some 0"
    and pb: "absoluteBoundingBox (figma_node (heap window_and_label ! 0)) = Some (a_box 100 50 300 200)"
    and r: "parent (heap window_and_label ! 0) = None"
    by (simp_all add: window_and_label_def a_generator_def a_node_def)
  from bounds_relative_scaled [OF c, of 0 "a_box 100 50 300 200" 2] p pb
  have "bounds 2 window_and_label 1 = (20, 20, 20, 40)" by (simp add: a_box_def)
  moreover from bounds_relative_scaled [OF pb, of 0 "a_box 100 50 300 200" 2] r
  have "bounds 2 window_and_label 0 = (200, 100, 600, 400)" by (simp add: a_box_def)
  ultimately show ?thesis by simp
qed

subsection \<open>Custom buttons\<close>


lemma init_length: "length (heap (snd (design_generator_init py fnode par w))) = Suc (length (heap w))"
  by (cases par) (simp_all add: design_generator_init_def Let_def split_def)










subsection \<open>Namespace paths\<close>







lemma names_consistent_empty: "names_consistent py \<lparr> used_names = {||}, heap = [] \<rparr>"
  by (simp add: names_consistent_def)

lemma names_consistent_init:
  assumes "names_consistent py w"
  shows "names_consistent py (snd (design_generator_init py fnode par w))"
proof (cases par)
  case None
  with assms show ?thesis
    by (auto simp: names_consistent_def design_generator_init_def Let_def split_def)
next
  case (Some p)
  have "short_class_name g = short_name py (q_widget_name g)"
    if "g \<in> set ((heap w)[p := (heap w ! p) \<lparr> children := children (heap w ! p) @ [length (heap w)] \<rparr>])"
    for g
  proof (cases "p < length (heap w)")
    case True
    then have "heap w ! p \<in> set (heap w)" by simp
    moreover from that set_update_subset_insert
    have "g = (heap w ! p) \<lparr> children := children (heap w ! p) @ [length (heap w)] \<rparr> \<or> g \<in> set (heap w)"
      by fastforce
    ultimately show ?thesis using assms by (auto simp: names_consistent_def)
  next
    case False
    then have "(heap w)[p := (heap w ! p) \<lparr> children := children (heap w ! p) @ [length (heap w)] \<rparr>] = heap w"
      by (simp add: list_update_beyond)
    with that assms show ?thesis by (simp add: names_consistent_def)
  qed
  then show ?thesis
    using Some by (auto simp: names_consistent_def design_generator_init_def Let_def split_def)
qed

lemma names_consistent_extend:
  assumes "names_consistent py w"
  shows "names_consistent py (frame_extend_paths p w)"
proof -
  have "short_class_name g = short_name py (q_widget_name g)"
    if "g \<in> set (heap (frame_extend_paths p w))" for g
  proof (cases "p < length (heap w)")
    case True
    from that obtain i where i: "i < length (heap w)" "g = heap (frame_extend_paths p w) ! i"
      by (auto simp: in_set_conv_nth frame_extend_paths_def Let_def)
    show ?thesis
      using i True assms
      by (cases "i = p") (auto simp: frame_extend_paths_def Let_def names_consistent_def)
  next
    case False
    with that assms show ?thesis
      by (simp add: frame_extend_paths_def Let_def names_consistent_def list_update_beyond)
  qed
  then show ?thesis by (simp add: names_consistent_def)
qed

lemma names_consistent_frame:
  assumes "names_consistent py w" and "frame_generate_design py p w = Inr (c, w')"
  shows "names_consistent py w'"
proof -
  let ?w1 = "frame_extend_paths p w"
  have "w' = snd (design_generator_init py (figma_node (heap ?w1 ! p)) (Some p) ?w1)"
    using assms(2)
    by (auto simp: frame_generate_design_def factory_generator_init_def Let_def and_then_Inr_iff)
  then show ?thesis
    using names_consistent_init [OF names_consistent_extend [OF assms(1)]] by simp
qed

lemma names_consistent_button:
  assumes "names_consistent py w" and "custom_button_init py fnode par g w = Inr (b, w')"
  shows "names_consistent py w'"
proof -
  have "w' = snd (design_generator_init py fnode par w)"
    using assms(2)
    by (auto simp: custom_button_init_def Let_def split_def and_then_Inr_iff split: if_splits)
  then show ?thesis using names_consistent_init [OF assms(1)] by simp
qed




text \<open>
  The store \<open>nested_frames\<close> is the one that the constructor of \<open>Outer\<close>, the design of
  \<open>Outer\<close> and the constructor of \<open>Inner\<close> under the child of \<open>Outer\<close> build from the
  empty store.
\<close>

lemma normalize_outer_inner:
  "normalize_name ascii_str (lit ''Outer'') = lit ''outer''"
  "normalize_name ascii_str (lit ''Inner'') = lit ''inner''"
  by (simp_all add: normalize_name_def ascii_eval collapse_uu.simps rstrip_u.simps)

lemma find_free_outer_inner:
  "find_free {||} (lit ''outer'') (lit ''outer'') 0 = lit ''outer''"
  "find_free {|lit ''outer''|} (lit ''outer'') (lit ''outer'') 0 = lit ''outer_0''"
  "find_free {|lit ''outer'', lit ''outer_0''|} (lit ''inner'') (lit ''inner'') 0 = lit ''inner''"
  by (simp_all add: find_free.simps suffixed_def str_nat.simps digit_eval lit_def)

lemma create_name_outer_inner:
  "create_name ascii_str (a_node ''Outer'' b) {||} = (lit ''outer'', {|lit ''outer''|})"
  "create_name ascii_str (a_node ''Outer'' b) {|lit ''outer''|}
     = (lit ''outer_0'', {|lit ''outer'', lit ''outer_0''|})"
  "create_name ascii_str (a_node ''Inner'' b) {|lit ''outer'', lit ''outer_0''|}
     = (lit ''inner'', {|lit ''outer'', lit ''outer_0'', lit ''inner''|})"
  by (auto simp: create_name_def a_node_def normalize_outer_inner find_free_outer_inner Let_def)

lemma nested_frames_built:
  "(case design_generator_init ascii_str (a_node ''Outer'' (Some (a_box 0 0 300 200))) None
           \<lparr> used_names = {||}, heap = [] \<rparr> of
      (f, w) \<Rightarrow>
        map_sum id (\<lambda>(c, w). snd (design_generator_init ascii_str
                                    (a_node ''Inner'' (Some (a_box 10 10 100 100))) (Some c) w))
          (frame_generate_design ascii_str f w))
   = Inr nested_frames"
proof -
  let ?outer = "a_node ''Outer'' (Some (a_box 0 0 300 200))"
  let ?w0 = "\<lparr> used_names = {|lit ''outer''|}, heap = [a_generator ?outer None [] ''outer''] \<rparr>"
  have 0: "design_generator_init ascii_str ?outer None \<lparr> used_names = {||}, heap = [] \<rparr> = (0, ?w0)"
    by (simp add: design_generator_init_def create_name_outer_inner a_generator_def)
  let ?w1 = "\<lparr> used_names = {|lit ''outer'', lit ''outer_0''|},
              heap = [in_namespace ''Outer'' (a_generator ?outer None [1] ''outer''),
                      in_namespace ''Outer'' (a_generator ?outer (Some 0) [] ''outer_0'')] \<rparr>"
  have b: "absoluteBoundingBox ?outer = Some (a_box 0 0 300 200)" by (simp add: a_node_def)
  have 1: "frame_generate_design ascii_str 0 ?w0 = Inr (1, ?w1)"
    apply (simp add: frame_generate_design_def factory_generator_init_def frame_extend_paths_def
        dict_item_def design_generator_init_def create_name_outer_inner a_generator_def b)
    apply (simp add: in_namespace_def ascii_eval)
    done
  have 2: "snd (design_generator_init ascii_str (a_node ''Inner'' (Some (a_box 10 10 100 100)))
                  (Some 1) ?w1) = nested_frames"
    by (simp add: design_generator_init_def create_name_outer_inner a_generator_def
        in_namespace_def nested_frames_def)
  show ?thesis by (simp only: 0 1 2 prod.case map_sum.simps id_apply)
qed




subsection \<open>Vector markup\<close>

lemma generate_path_counter:
  "generate_path fnode d gr st = Inr (ls, st') \<Longrightarrow> graphic_counter st' = graphic_counter st + 1"
  by (auto simp: generate_path_def Let_def dict_item_def and_then_Inr_iff
           split: if_splits option.splits)

lemma generate_paths_append:
  "generate_paths fnode (ps @ qs) st =
     and_then (generate_paths fnode ps st) (\<lambda>(ls, st1).
     and_then (generate_paths fnode qs st1) (\<lambda>(ls', st2). Inr (ls @ ls', st2)))"
proof (induction ps arbitrary: st)
  case Nil
  show ?case by (cases "generate_paths fnode qs st") auto
next
  case (Cons p ps)
  obtain geom gr where p: "p = (geom, gr)" by (cases p)
  show ?case
  proof (cases "generate_path fnode (path geom) gr st")
    case (Inl e)
    then show ?thesis by (simp add: p)
  next
    case (Inr r)
    obtain ls st1 where r: "r = (ls, st1)" by (cases r)
    show ?thesis
    proof (cases "generate_paths fnode ps st1")
      case (Inl e)
      with Inr r show ?thesis by (simp add: p Cons.IH)
    next
      case ps: (Inr r')
      obtain ls' st2 where r': "r' = (ls', st2)" by (cases r')
      show ?thesis
        using Inr r ps r' by (cases "generate_paths fnode qs st2") (auto simp: p Cons.IH)
    qed
  qed
qed

lemma zip_index_aligned:
  "zip xs ys = map (\<lambda>i. (xs ! i, ys ! i)) [0..<min (length xs) (length ys)]"
  by (rule nth_equalityI) simp_all

lemma generate_paths_counter:
  "generate_paths fnode ps st = Inr (ls, st') \<Longrightarrow> graphic_counter st' = graphic_counter st + length ps"
proof (induction ps arbitrary: st ls st')
  case Nil
  then show ?case by simp
next
  case (Cons p ps)
  obtain geom gr where p: "p = (geom, gr)" by (cases p)
  from Cons.prems obtain l1 s1 l2 where
    a: "generate_path fnode (path geom) gr st = Inr (l1, s1)" and
    b: "generate_paths fnode ps s1 = Inr (l2, st')"
    by (auto simp: p and_then_Inr_iff)
  from a have "graphic_counter s1 = graphic_counter st + 1"
    by (rule generate_path_counter)
  with Cons.IH [OF b] show ?case by simp
qed

text \<open>
  C3 holds on the code when the fill colour has an alpha: the emitted opacity is the
  graphic's opacity (1 when absent) times that alpha.
\<close>

theorem solid_opacity_with_alpha:
  assumes "gr_type gr = ''SOLID''" and "gr_color gr = Some c" and "col_a c = Some a"
  shows "generate_path fnode d gr st =
           Inr ([SvgPath (hex_color c) (dict_get (strokeWeight fnode) 0)
                   (dict_get (gr_opacity gr) 1 * a) d],
                st \<lparr> graphic_counter := graphic_counter st + 1 \<rparr>)"
  using assms by (simp add: generate_path_def dict_item_def dict_get_def Let_def)

text \<open>
  Colour alpha 0.4 under graphic opacity 0.5 gives the opacity 0.2.
\<close>

theorem solid_opacity_example:
  "generate_path (a_node ''shape'' None) ''M 0 0'' (a_solid (Some (1/2)) (a_color 1 0 0 (Some (2/5)))) fresh_state =
     Inr ([SvgPath (FillHex 255 0 0) 0 (1/5) ''M 0 0''],
          fresh_state \<lparr> graphic_counter := 1 \<rparr>)"
  by (simp add: generate_path_def dict_item_def dict_get_def Let_def a_solid_def a_color_def a_node_def hex_color_def py_int_def fresh_state_def)

text \<open>
  C3, where the code departs from it: a solid fill whose colour has no alpha, under the
  graphic opacity 0.5, is emitted with opacity 0 and not 0.5, since the solid branch reads
  the alpha with the default 0 (the gradient stops read it with the default 1).
\<close>

theorem solid_opacity_missing_alpha:
  "generate_path (a_node ''shape'' None) ''M 0 0'' (a_solid (Some (1/2)) (a_color 1 0 0 None)) fresh_state =
     Inr ([SvgPath (FillHex 255 0 0) 0 0 ''M 0 0''],
          fresh_state \<lparr> graphic_counter := 1 \<rparr>)"
  by (simp add: generate_path_def dict_item_def dict_get_def Let_def a_solid_def a_color_def a_node_def hex_color_def py_int_def fresh_state_def)

text \<open>
  C8. For a radial gradient with at least one handle, the centre of the emitted gradient
  is the first handle and its radius is the Euclidean distance between the first and
  the last handle.
\<close>

theorem radial_gradient_center_radius:
  assumes "gr_type gr = ''GRADIENT_RADIAL''"
    and "gradientHandlePositions gr = Some hs" and "hs \<noteq> []"
    and "gradientStops gr = Some stops"
  shows "\<exists>lines st'. generate_path fnode d gr st =
           Inr (RadialGradientOpen (''gradient'' @ str_nat (graphic_counter st + 1))
                  (pt_x (hd hs)) (pt_y (hd hs))
                  (sqrt ((pt_x (hd hs) - pt_x (last hs))\<^sup>2 + (pt_y (hd hs) - pt_y (last hs))\<^sup>2))
                # lines, st')"
  using assms
  by (simp add: generate_path_def dict_item_def Let_def list_item_first list_item_last)

text \<open>
  Handles at (0, 0) and (3, 4) give the radius 5.
\<close>

theorem radial_gradient_center_radius_witness:
  "\<exists>lines st'. generate_path (a_node ''shape'' None) ''M 0 0''
       (a_radial [a_point 0 0, a_point 3 4] []) fresh_state =
     Inr (RadialGradientOpen ''gradient1'' 0 0 5 # lines, st')"
proof -
  have s: "sqrt ((0 - 3)\<^sup>2 + (0 - 4)\<^sup>2) = (5::real)"
    using real_sqrt_abs [of 5] by simp
  have n: "str_nat (Suc 0) = ''1''"
    by (simp add: str_nat.simps digit_char_def char_of_def bit_Suc_0_iff)
  show ?thesis
    using radial_gradient_center_radius
      [of "a_radial [a_point 0 0, a_point 3 4] []" "[a_point 0 0, a_point 3 4]" "[]"
          "a_node ''shape'' None" "''M 0 0''" fresh_state]
    by (simp add: a_radial_def a_point_def fresh_state_def s n)
qed

text \<open>
  C5. A graphic whose kind is none of the four supported ones yields no line and one
  warning, and raises nothing. In a list of pairs it contributes nothing to the output:
  the pairs before it and the pairs after it are emitted as \<open>generate_path\<close> emits
  them, the later ones from a state that differs only in the counter, which this pair
  has advanced by one as every pair does, and in the warning.
\<close>

theorem unsupported_graphic_skipped:
  assumes "gr_type gr \<notin> {''SOLID'', ''IMAGE'', ''GRADIENT_LINEAR'', ''GRADIENT_RADIAL''}"
  shows "generate_path fnode d gr st =
           Inr ([], st \<lparr> graphic_counter := graphic_counter st + 1,
                         warnings := warnings st @ [''Unknown graphic type : '' @ gr_type gr] \<rparr>)
       \<and> generate_paths fnode (ps @ (geom, gr) # qs) st =
           and_then (generate_paths fnode ps st) (\<lambda>(ls, st1).
           and_then (generate_paths fnode qs
                       (st1 \<lparr> graphic_counter := graphic_counter st1 + 1,
                              warnings := warnings st1 @ [''Unknown graphic type : '' @ gr_type gr] \<rparr>))
             (\<lambda>(ls', st2). Inr (ls @ ls', st2)))"
proof -
  have one: "generate_path fnode d gr st =
           Inr ([], st \<lparr> graphic_counter := graphic_counter st + 1,
                         warnings := warnings st @ [''Unknown graphic type : '' @ gr_type gr] \<rparr>)"
    for d st
    using assms by (simp add: generate_path_def Let_def)
  have many: "generate_paths fnode (ps @ (geom, gr) # qs) st =
           and_then (generate_paths fnode ps st) (\<lambda>(ls, st1).
           and_then (generate_paths fnode qs
                       (st1 \<lparr> graphic_counter := graphic_counter st1 + 1,
                              warnings := warnings st1 @ [''Unknown graphic type : '' @ gr_type gr] \<rparr>))
             (\<lambda>(ls', st2). Inr (ls @ ls', st2)))"
  proof (cases "generate_paths fnode ps st")
    case (Inl e)
    then show ?thesis by (simp add: generate_paths_append)
  next
    case (Inr r)
    obtain l1 s1 where r: "r = (l1, s1)" by (cases r)
    show ?thesis
      using Inr r
      by (cases "generate_paths fnode qs
                       (s1 \<lparr> graphic_counter := graphic_counter s1 + 1,
                              warnings := warnings s1 @ [''Unknown graphic type : '' @ gr_type gr] \<rparr>)")
         (auto simp: generate_paths_append one)
  qed
  from one many show ?thesis by (intro conjI)
qed

text \<open>
  A fill of kind \<open>EMOJI\<close> between two solid fills: both solid paths are emitted.
\<close>

theorem unsupported_graphic_skipped_witness:
  "generate_paths (a_node ''Shape'' None)
      [(a_geometry ''M 0 0'', red), (a_geometry ''M 1 1'', a_graphic ''EMOJI''),
       (a_geometry ''M 2 2'', red)] fresh_state =
     Inr ([SvgPath (FillHex 255 0 0) 0 1 ''M 0 0'', SvgPath (FillHex 255 0 0) 0 1 ''M 2 2''],
          \<lparr> graphic_counter = 3, svg_counter = 0,
            warnings = [''Unknown graphic type : EMOJI''], files = [] \<rparr>)"
proof -
  have t: "gr_type (a_graphic ''EMOJI'') \<notin> {''SOLID'', ''IMAGE'', ''GRADIENT_LINEAR'', ''GRADIENT_RADIAL''}"
    by (simp add: a_graphic_def)
  have g: "generate_path (a_node ''Shape'' None) d red st
             = Inr ([SvgPath (FillHex 255 0 0) 0 1 d], st \<lparr> graphic_counter := graphic_counter st + 1 \<rparr>)"
    for d st
    by (simp add: generate_path_def dict_item_def dict_get_def Let_def a_solid_def a_color_def
        a_node_def hex_color_def py_int_def red_def)
  from conjunct2 [OF unsupported_graphic_skipped [OF t, of "a_node ''Shape'' None" "''M 1 1''" fresh_state
      "[(a_geometry ''M 0 0'', red)]" "a_geometry ''M 1 1''" "[(a_geometry ''M 2 2'', red)]"]]
  show ?thesis
    by (simp add: g a_geometry_def fresh_state_def a_graphic_def)
qed

lemma create_svg_file_pairs:
  "create_svg_file fnode filename st =
      and_then (dict_item ''absoluteBoundingBox'' (absoluteBoundingBox fnode)) (\<lambda>bb.
         and_then (generate_paths fnode
             (zip (dict_get (fillGeometry fnode) []) (dict_get (fills fnode) [])
              @ zip (dict_get (strokeGeometry fnode) []) (dict_get (strokes fnode) [])) st)
           (\<lambda>(ls, st'). Inr (st' \<lparr> files := files st' @ [(filename, ls)] \<rparr>)))"
  (is "_ = and_then _ (\<lambda>bb. and_then (generate_paths fnode (zip ?fg ?fl @ zip ?sg ?sk) st) _)")
proof (cases "absoluteBoundingBox fnode")
  case None
  then show ?thesis by (simp add: create_svg_file_def dict_item_def)
next
  case (Some bb)
  show ?thesis
  proof (cases "generate_paths fnode (zip ?fg ?fl) st")
    case (Inl e)
    then show ?thesis
      by (simp add: create_svg_file_def dict_item_def Some generate_paths_append)
  next
    case (Inr r)
    obtain l1 s1 where r: "r = (l1, s1)" by (cases r)
    show ?thesis
      using Inr r
      by (cases "generate_paths fnode (zip ?sg ?sk) s1")
         (auto simp: create_svg_file_def dict_item_def Some generate_paths_append)
  qed
qed

text \<open>
  C10. \<open>create_svg_file\<close> emits the index-aligned pairs only: the first
  min(|fillGeometry|, |fills|) fill pairs, then the first min(|strokeGeometry|, |strokes|)
  stroke pairs, a missing list counting as empty; \<open>generate_path\<close> runs once for each
  of them, so on success the counter has advanced by their number.
\<close>

theorem create_svg_file_index_aligned:
  "create_svg_file fnode filename st =
     (let fg = dict_get (fillGeometry fnode) []; fl = dict_get (fills fnode) [];
          sg = dict_get (strokeGeometry fnode) []; sk = dict_get (strokes fnode) []
      in and_then (dict_item ''absoluteBoundingBox'' (absoluteBoundingBox fnode)) (\<lambda>bb.
         and_then (generate_paths fnode
                     (map (\<lambda>i. (fg ! i, fl ! i)) [0..<min (length fg) (length fl)]
                      @ map (\<lambda>i. (sg ! i, sk ! i)) [0..<min (length sg) (length sk)]) st)
           (\<lambda>(ls, st'). Inr (st' \<lparr> files := files st' @ [(filename, ls)] \<rparr>))))
   \<and> (\<forall>st'. create_svg_file fnode filename st = Inr st' \<longrightarrow>
         graphic_counter st' = graphic_counter st
            + min (length (dict_get (fillGeometry fnode) [])) (length (dict_get (fills fnode) []))
            + min (length (dict_get (strokeGeometry fnode) [])) (length (dict_get (strokes fnode) [])))"
proof -
  let ?fg = "dict_get (fillGeometry fnode) []" and ?fl = "dict_get (fills fnode) []"
  let ?sg = "dict_get (strokeGeometry fnode) []" and ?sk = "dict_get (strokes fnode) []"
  have eq: "create_svg_file fnode filename st =
      and_then (dict_item ''absoluteBoundingBox'' (absoluteBoundingBox fnode)) (\<lambda>bb.
         and_then (generate_paths fnode (zip ?fg ?fl @ zip ?sg ?sk) st)
           (\<lambda>(ls, st'). Inr (st' \<lparr> files := files st' @ [(filename, ls)] \<rparr>)))"
    by (rule create_svg_file_pairs)
  have cnt: "graphic_counter st' = graphic_counter st + min (length ?fg) (length ?fl)
               + min (length ?sg) (length ?sk)"
    if "create_svg_file fnode filename st = Inr st'" for st'
  proof -
    from that eq obtain ls s2 where
      g: "generate_paths fnode (zip ?fg ?fl @ zip ?sg ?sk) st = Inr (ls, s2)"
      and s: "st' = s2 \<lparr> files := files s2 @ [(filename, ls)] \<rparr>"
      by (auto simp: and_then_Inr_iff)
    from generate_paths_counter [OF g] s show ?thesis by simp
  qed
  have eq': "create_svg_file fnode filename st =
      and_then (dict_item ''absoluteBoundingBox'' (absoluteBoundingBox fnode)) (\<lambda>bb.
         and_then (generate_paths fnode
                     (map (\<lambda>i. (?fg ! i, ?fl ! i)) [0..<min (length ?fg) (length ?fl)]
                      @ map (\<lambda>i. (?sg ! i, ?sk ! i)) [0..<min (length ?sg) (length ?sk)]) st)
           (\<lambda>(ls, st'). Inr (st' \<lparr> files := files st' @ [(filename, ls)] \<rparr>)))"
    using eq zip_index_aligned [of ?fg ?fl] zip_index_aligned [of ?sg ?sk] by (simp only:)
  show ?thesis
    unfolding Let_def
  proof (intro conjI allI impI)
    show "create_svg_file fnode filename st =
      and_then (dict_item ''absoluteBoundingBox'' (absoluteBoundingBox fnode)) (\<lambda>bb.
         and_then (generate_paths fnode
                     (map (\<lambda>i. (?fg ! i, ?fl ! i)) [0..<min (length ?fg) (length ?fl)]
                      @ map (\<lambda>i. (?sg ! i, ?sk ! i)) [0..<min (length ?sg) (length ?sk)]) st)
           (\<lambda>(ls, st'). Inr (st' \<lparr> files := files st' @ [(filename, ls)] \<rparr>)))"
      by (rule eq')
  next
    fix st' assume "create_svg_file fnode filename st = Inr st'"
    then show "graphic_counter st' = graphic_counter st + min (length ?fg) (length ?fl)
               + min (length ?sg) (length ?sk)"
      by (rule cnt)
  qed
qed

text \<open>
  Two fill geometries for one fill and a stroke without geometry: one path is emitted.
\<close>

theorem create_svg_file_index_aligned_witness:
  "create_svg_file uneven_shape ''file1.svg'' fresh_state =
     Inr \<lparr> graphic_counter = 1, svg_counter = 0, warnings = [],
           files = [(''file1.svg'', [SvgPath (FillHex 255 0 0) 0 1 ''M 0 0''])] \<rparr>"
proof -
  have g: "generate_path uneven_shape ''M 0 0'' (a_solid None (a_color 1 0 0 (Some 1))) fresh_state
             = Inr ([SvgPath (FillHex 255 0 0) 0 1 ''M 0 0''], fresh_state \<lparr> graphic_counter := 1 \<rparr>)"
    by (simp add: generate_path_def dict_item_def dict_get_def Let_def a_solid_def a_color_def
        uneven_shape_def hex_color_def py_int_def fresh_state_def)
  have "create_svg_file uneven_shape ''file1.svg'' fresh_state =
          and_then (generate_paths uneven_shape
             [(a_geometry ''M 0 0'', a_solid None (a_color 1 0 0 (Some 1)))] fresh_state)
           (\<lambda>(ls, st'). Inr (st' \<lparr> files := files st' @ [(''file1.svg'', ls)] \<rparr>))"
    using conjunct1 [OF create_svg_file_index_aligned [of uneven_shape "''file1.svg''" fresh_state]]
    by (simp add: uneven_shape_def dict_get_def dict_item_def Let_def)
  then show ?thesis
    using g by (simp add: a_geometry_def fresh_state_def)
qed

subsection \<open>Counters, file names and ids\<close>

lemma markup_ids_Nil [simp]: "markup_ids [] = []"
  by (simp add: markup_ids_def)

lemma markup_ids_Cons [simp]: "markup_ids (l # ls) = line_ids l @ markup_ids ls"
  by (simp add: markup_ids_def)

lemma markup_ids_append [simp]: "markup_ids (xs @ ys) = markup_ids xs @ markup_ids ys"
  by (simp add: markup_ids_def)

lemma markup_ids_stops [simp]: "markup_ids (map (stop_line op) stops) = []"
  by (induction stops) (simp_all add: stop_line_def Let_def)

lemma ids_between_disjoint: "ids_between a b \<inter> ids_between b c = {}"
  by (auto simp: ids_between_def dest: str_nat_inj)

lemma ids_between_mono: "a \<le> a' \<Longrightarrow> b' \<le> b \<Longrightarrow> ids_between a' b' \<subseteq> ids_between a b"
  by (auto simp: ids_between_def)

lemma ids_between_Suc:
  "''img'' @ str_nat (Suc a) \<in> ids_between a (Suc a)"
  "''gradient'' @ str_nat (Suc a) \<in> ids_between a (Suc a)"
  by (auto simp: ids_between_def)

lemma generate_path_ids:
  assumes "generate_path fnode d gr st = Inr (ls, st')"
  shows "files st' = files st \<and> svg_counter st' = svg_counter st
         \<and> graphic_counter st' = Suc (graphic_counter st)
         \<and> distinct (markup_ids ls)
         \<and> set (markup_ids ls) \<subseteq> ids_between (graphic_counter st) (Suc (graphic_counter st))"
  using assms ids_between_Suc [of "graphic_counter st"]
  by (auto simp: generate_path_def Let_def dict_item_def and_then_Inr_iff
           split: if_splits option.splits)

lemma generate_paths_ids:
  "generate_paths fnode ps st = Inr (ls, st') \<Longrightarrow>
     files st' = files st \<and> svg_counter st' = svg_counter st
     \<and> graphic_counter st' = graphic_counter st + length ps
     \<and> distinct (markup_ids ls)
     \<and> set (markup_ids ls) \<subseteq> ids_between (graphic_counter st) (graphic_counter st')"
proof (induction ps arbitrary: st ls st')
  case Nil
  then show ?case by simp
next
  case (Cons p ps)
  obtain geom gr where p: "p = (geom, gr)" by (cases p)
  from Cons.prems obtain l1 s1 l2 where
    a: "generate_path fnode (path geom) gr st = Inr (l1, s1)" and
    b: "generate_paths fnode ps s1 = Inr (l2, st')" and
    ls: "ls = l1 @ l2"
    by (auto simp: p and_then_Inr_iff)
  note A = generate_path_ids [OF a]
  note B = Cons.IH [OF b]
  let ?c = "graphic_counter st"
  from A have c1: "graphic_counter s1 = Suc ?c" and d1: "distinct (markup_ids l1)"
    and s1: "set (markup_ids l1) \<subseteq> ids_between ?c (Suc ?c)"
    and f1: "files s1 = files st" and v1: "svg_counter s1 = svg_counter st" by blast+
  from B have c2: "graphic_counter st' = graphic_counter s1 + length ps"
    and d2: "distinct (markup_ids l2)"
    and s2': "set (markup_ids l2) \<subseteq> ids_between (graphic_counter s1) (graphic_counter st')"
    and f2: "files st' = files s1" and v2: "svg_counter st' = svg_counter s1" by blast+
  from s2' have s2: "set (markup_ids l2) \<subseteq> ids_between (Suc ?c) (graphic_counter st')"
    by (simp only: c1)
  from s1 s2 ids_between_disjoint [of ?c "Suc ?c" "graphic_counter st'"]
  have dis: "set (markup_ids l1) \<inter> set (markup_ids l2) = {}" by blast
  from c1 c2 have le: "Suc ?c \<le> graphic_counter st'" by simp
  have "ids_between ?c (Suc ?c) \<subseteq> ids_between ?c (graphic_counter st')"
    using le by (intro ids_between_mono) simp_all
  moreover have "ids_between (Suc ?c) (graphic_counter st') \<subseteq> ids_between ?c (graphic_counter st')"
    by (intro ids_between_mono) simp_all
  ultimately have sub: "set (markup_ids ls) \<subseteq> ids_between ?c (graphic_counter st')"
    using s1 s2 by (auto simp: ls)
  have cnt: "graphic_counter st' = ?c + length (p # ps)" using c1 c2 by simp
  have dl: "distinct (markup_ids ls)" using d1 d2 dis by (simp add: ls)
  from f1 f2 v1 v2 cnt dl sub show ?case by (intro conjI) simp_all
qed

lemma vector_generate_design_ids:
  assumes "vector_generate_design fnode st = Inr (p, st')"
  shows "\<exists>ls. files st' = files st @ [(''file'' @ str_nat (Suc (svg_counter st)) @ ''.svg'', ls)]
           \<and> distinct (markup_ids ls)
           \<and> set (markup_ids ls) \<subseteq> ids_between (graphic_counter st) (graphic_counter st')"
    and "p = ''svg/file'' @ str_nat (Suc (svg_counter st)) @ ''.svg''"
    and "svg_counter st' = Suc (svg_counter st)"
    and "graphic_counter st' = graphic_counter st + pair_count fnode"
proof -
  let ?st1 = "st \<lparr> svg_counter := svg_counter st + 1 \<rparr>"
  let ?f = "''file'' @ str_nat (Suc (svg_counter st)) @ ''.svg''"
  from assms have c: "create_svg_file fnode ?f ?st1 = Inr st'" and p: "p = ''svg/'' @ ?f"
    by (auto simp: vector_generate_design_def Let_def and_then_Inr_iff)
  from c obtain ls s2 where
    g: "generate_paths fnode
             (zip (dict_get (fillGeometry fnode) []) (dict_get (fills fnode) [])
              @ zip (dict_get (strokeGeometry fnode) []) (dict_get (strokes fnode) [])) ?st1
          = Inr (ls, s2)"
    and s: "st' = s2 \<lparr> files := files s2 @ [(?f, ls)] \<rparr>"
    unfolding create_svg_file_pairs by (auto simp: and_then_Inr_iff)
  note G = generate_paths_ids [OF g]
  have G': "files s2 = files ?st1 \<and> svg_counter s2 = svg_counter ?st1
     \<and> graphic_counter s2 = graphic_counter ?st1 + length
             (zip (dict_get (fillGeometry fnode) []) (dict_get (fills fnode) [])
              @ zip (dict_get (strokeGeometry fnode) []) (dict_get (strokes fnode) []))
     \<and> distinct (markup_ids ls)
     \<and> set (markup_ids ls) \<subseteq> ids_between (graphic_counter ?st1) (graphic_counter s2)"
    by (rule G)
  from G' have gf: "files s2 = files st" by simp
  from G' have gv: "svg_counter s2 = Suc (svg_counter st)" by simp
  from G' have gd: "distinct (markup_ids ls)" by blast
  from G' have "set (markup_ids ls) \<subseteq> ids_between (graphic_counter ?st1) (graphic_counter s2)"
    by blast
  then have gs: "set (markup_ids ls) \<subseteq> ids_between (graphic_counter st) (graphic_counter s2)"
    by simp
  from G' have gc: "graphic_counter s2 = graphic_counter st + pair_count fnode"
    by (simp add: pair_count_def)
  have c': "graphic_counter st' = graphic_counter s2" and f': "files st' = files s2 @ [(?f, ls)]"
    and v': "svg_counter st' = svg_counter s2" by (simp_all add: s)
  show "\<exists>ls. files st' = files st @ [(?f, ls)]
           \<and> distinct (markup_ids ls)
           \<and> set (markup_ids ls) \<subseteq> ids_between (graphic_counter st) (graphic_counter st')"
    using gf gd gs by (intro exI [of _ ls]) (simp add: c' f')
  from p show "p = ''svg/file'' @ str_nat (Suc (svg_counter st)) @ ''.svg''" by simp
  show "svg_counter st' = Suc (svg_counter st)" by (simp only: v' gv)
  show "graphic_counter st' = graphic_counter st + pair_count fnode" by (simp only: c' gc)
qed

lemma generate_vectors_run:
  "generate_vectors ns st = Inr (paths, st') \<Longrightarrow>
     \<exists>fs. files st' = files st @ fs
        \<and> map fst fs = map (\<lambda>k. ''file'' @ str_nat (svg_counter st + Suc k) @ ''.svg'') [0..<length ns]
        \<and> paths = map (\<lambda>k. ''svg/file'' @ str_nat (svg_counter st + Suc k) @ ''.svg'') [0..<length ns]
        \<and> svg_counter st' = svg_counter st + length ns
        \<and> graphic_counter st' = graphic_counter st + sum_list (map pair_count ns)
        \<and> distinct (markup_ids (concat (map snd fs)))
        \<and> set (markup_ids (concat (map snd fs)))
            \<subseteq> ids_between (graphic_counter st) (graphic_counter st')"
proof (induction ns arbitrary: st paths st')
  case Nil
  then show ?case by simp
next
  case (Cons n ns)
  from Cons.prems obtain p s1 ps where
    a: "vector_generate_design n st = Inr (p, s1)" and
    b: "generate_vectors ns s1 = Inr (ps, st')" and
    paths: "paths = p # ps"
    by (auto simp: and_then_Inr_iff)
  let ?f = "\<lambda>k. ''file'' @ str_nat (svg_counter st + Suc k) @ ''.svg''"
  let ?g = "\<lambda>k. ''svg/file'' @ str_nat (svg_counter st + Suc k) @ ''.svg''"
  from vector_generate_design_ids [OF a] obtain ls where
    f1: "files s1 = files st @ [(?f 0, ls)]" and d1: "distinct (markup_ids ls)"
    and i1: "set (markup_ids ls) \<subseteq> ids_between (graphic_counter st) (graphic_counter s1)"
    and p: "p = ?g 0" and v1: "svg_counter s1 = Suc (svg_counter st)"
    and c1: "graphic_counter s1 = graphic_counter st + pair_count n"
    by auto
  from Cons.IH [OF b] obtain fs where
    f2: "files st' = files s1 @ fs"
    and n2: "map fst fs = map (\<lambda>k. ''file'' @ str_nat (svg_counter s1 + Suc k) @ ''.svg'') [0..<length ns]"
    and p2: "ps = map (\<lambda>k. ''svg/file'' @ str_nat (svg_counter s1 + Suc k) @ ''.svg'') [0..<length ns]"
    and v2: "svg_counter st' = svg_counter s1 + length ns"
    and c2: "graphic_counter st' = graphic_counter s1 + sum_list (map pair_count ns)"
    and d2: "distinct (markup_ids (concat (map snd fs)))"
    and i2: "set (markup_ids (concat (map snd fs)))
               \<subseteq> ids_between (graphic_counter s1) (graphic_counter st')"
    by blast
  let ?fs = "(?f 0, ls) # fs"
  have files: "files st' = files st @ ?fs" by (simp add: f1 f2)
  have names: "map fst ?fs = map ?f [0..<length (n # ns)]"
    by (simp add: n2 v1 map_upt_Suc del: upt_Suc)
  have ps: "paths = map ?g [0..<length (n # ns)]"
    by (simp add: paths p p2 v1 map_upt_Suc del: upt_Suc)
  have v: "svg_counter st' = svg_counter st + length (n # ns)" by (simp add: v1 v2)
  have c: "graphic_counter st' = graphic_counter st + sum_list (map pair_count (n # ns))"
    by (simp add: c1 c2)
  from i1 i2 ids_between_disjoint [of "graphic_counter st" "graphic_counter s1" "graphic_counter st'"]
  have dis: "set (markup_ids ls) \<inter> set (markup_ids (concat (map snd fs))) = {}" by blast
  have d: "distinct (markup_ids (concat (map snd ?fs)))"
    using d1 d2 dis by simp
  have "ids_between (graphic_counter st) (graphic_counter s1)
          \<subseteq> ids_between (graphic_counter st) (graphic_counter st')"
    by (intro ids_between_mono) (simp_all add: c2)
  moreover have "ids_between (graphic_counter s1) (graphic_counter st')
          \<subseteq> ids_between (graphic_counter st) (graphic_counter st')"
    by (intro ids_between_mono) (simp_all add: c1)
  ultimately have i: "set (markup_ids (concat (map snd ?fs)))
            \<subseteq> ids_between (graphic_counter st) (graphic_counter st')"
    using i1 i2 by auto
  from files names ps v c d i show ?case by (intro exI [of _ ?fs] conjI)
qed

lemma distinct_numbered: "distinct (map (\<lambda>k. pre @ str_nat (c + Suc k) @ post) [0..<n])"
  by (auto simp: distinct_map inj_on_def dest: str_nat_inj)

lemma str_nat_small:
  "str_nat (Suc 0) = ''1''" "str_nat (Suc (Suc 0)) = ''2''"
  "str_nat (Suc (Suc (Suc (Suc 0)))) = ''4''"
  by (simp_all add: str_nat.simps digit_char_def char_of_def bit_Suc_0_iff)

lemma sqrt_3_4: "sqrt ((0 - 3)\<^sup>2 + (0 - 4)\<^sup>2) = (5::real)"
  using real_sqrt_abs [of 5] by simp

lemma gradient_shape_file:
  "vector_generate_design gradient_shape
      \<lparr> graphic_counter = c, svg_counter = v, warnings = [], files = fs \<rparr>
     = Inr (''svg/file'' @ str_nat (v + 1) @ ''.svg'',
            \<lparr> graphic_counter = c + 2, svg_counter = v + 1, warnings = [],
              files = fs @ [(''file'' @ str_nat (v + 1) @ ''.svg'',
                             gradient_shape_lines (''gradient'' @ str_nat (c + 2)))] \<rparr>)"
  by (simp add: vector_generate_design_def create_svg_file_def generate_path_def
      gradient_shape_def gradient_shape_lines_def red_def a_solid_def a_radial_def a_color_def
      a_point_def a_geometry_def a_box_def dict_item_def dict_get_def list_item_def
      hex_color_def py_int_def Let_def sqrt_3_4)

text \<open>
  C7 as stated does not hold: there is no single counter. After one vector node with
  two fills the file has the number 1, from \<open>VectorGenerator.svg_counter\<close>, and its
  gradient has the number 2, from \<open>SvgGenerator.graphic_counter\<close>.
\<close>

theorem single_counter_counterexample:
  "generate_vectors [gradient_shape] fresh_state =
     Inr ([''svg/file1.svg''],
          \<lparr> graphic_counter = 2, svg_counter = 1, warnings = [],
            files = [(''file1.svg'', gradient_shape_lines ''gradient2'')] \<rparr>)"
  using gradient_shape_file [of 0 0 "[]"]
  by (simp add: fresh_state_def str_nat_small eval_nat_numeral)

text \<open>
  C7, amended. A run uses two counters, neither of which is ever reset:
  \<open>svg_counter\<close> advances by one for each vector node and numbers the files,
  \<open>graphic_counter\<close> advances by one for each index-aligned pair and numbers the image
  and gradient ids. Hence the paths returned, the names of the files written and the
  ids defined in the files written during one run are each pairwise distinct.
\<close>

theorem two_counters_distinct_names_and_ids:
  assumes "generate_vectors ns st = Inr (paths, st')"
  shows "svg_counter st' = svg_counter st + length ns
       \<and> graphic_counter st' = graphic_counter st + sum_list (map pair_count ns)
       \<and> paths = map (\<lambda>k. ''svg/file'' @ str_nat (svg_counter st + Suc k) @ ''.svg'') [0..<length ns]
       \<and> map fst (written st st')
           = map (\<lambda>k. ''file'' @ str_nat (svg_counter st + Suc k) @ ''.svg'') [0..<length ns]
       \<and> distinct paths
       \<and> distinct (map fst (written st st'))
       \<and> distinct (markup_ids (concat (map snd (written st st'))))"
proof -
  from generate_vectors_run [OF assms] obtain fs where
    f: "files st' = files st @ fs"
    and n: "map fst fs = map (\<lambda>k. ''file'' @ str_nat (svg_counter st + Suc k) @ ''.svg'') [0..<length ns]"
    and p: "paths = map (\<lambda>k. ''svg/file'' @ str_nat (svg_counter st + Suc k) @ ''.svg'') [0..<length ns]"
    and v: "svg_counter st' = svg_counter st + length ns"
    and c: "graphic_counter st' = graphic_counter st + sum_list (map pair_count ns)"
    and d: "distinct (markup_ids (concat (map snd fs)))"
    by blast
  have w: "written st st' = fs" by (simp add: written_def f)
  have dp: "distinct paths" unfolding p by (rule distinct_numbered)
  have dn: "distinct (map fst (written st st'))" unfolding w n by (rule distinct_numbered)
  from v c p n dp dn d show ?thesis unfolding w by (intro conjI)
qed

lemma two_shapes_run:
  "generate_vectors [gradient_shape, gradient_shape] fresh_state =
     Inr ([''svg/file1.svg'', ''svg/file2.svg''], after_two_shapes)"
  using gradient_shape_file [of 0 0 "[]"]
    gradient_shape_file [of "Suc (Suc 0)" "Suc 0"
      "[(''file1.svg'', gradient_shape_lines ''gradient2'')]"]
  by (simp add: fresh_state_def after_two_shapes_def str_nat_small eval_nat_numeral)

text \<open>
  Two shapes with one gradient each: the files are 1 and 2, the gradients 2 and 4.
\<close>

theorem two_counters_distinct_names_and_ids_witness:
  "generate_vectors [gradient_shape, gradient_shape] fresh_state =
     Inr ([''svg/file1.svg'', ''svg/file2.svg''], after_two_shapes)
   \<and> distinct [''svg/file1.svg'', ''svg/file2.svg'']
   \<and> distinct (markup_ids (concat (map snd (written fresh_state after_two_shapes))))"
proof -
  note t = two_counters_distinct_names_and_ids [OF two_shapes_run]
  from t have a: "distinct [''svg/file1.svg'', ''svg/file2.svg'']" by blast
  from t have b: "distinct (markup_ids (concat (map snd (written fresh_state after_two_shapes))))"
    by blast
  from two_shapes_run a b show ?thesis by (intro conjI)
qed

end
